theory Spec2Isabelle
  imports Complex_Main "HOL-Library.Sublist"
begin

section \<open>Data model of the monitor\<close>

text \<open>
  The monitor (\<^verbatim>\<open>ops/monitor/goals_monitor.py\<close>) keeps all its data in Python
  dictionaries. A probe result is the dictionary built by \<^verbatim>\<open>probe_url\<close>, the alert
  state is the dictionary returned by \<^verbatim>\<open>load_state\<close>. Both have a fixed set of
  keys and are modelled as records. Status values are the strings the source compares
  against (\<^verbatim>\<open>"UP"\<close>, \<^verbatim>\<open>"DOWN"\<close>); counters are Python integers.
\<close>

record probe_result =
  url :: string
  status :: string
  code :: int
  latency_ms :: int
  error :: string

record alert_state =
  last_alert_status :: string
  consecutive_failures :: int
  consecutive_successes :: int
  last_summary_date :: string

text \<open>
  Every text handed to \<^verbatim>\<open>send_telegram\<close> is one of three messages. The two alerts
  are kept as data (the values that the f-strings render): a down alert carries status
  and code of both probes and each probe's error text when it is not empty. The daily
  summary is carried as its rendered text.
\<close>

datatype message =
    DownAlert string int string int "string option" "string option"
  | RecoveryNotice
  | DailySummary string

section \<open>The alert state machine (\<^verbatim>\<open>main\<close>, step 3 of the loop body)\<close>

definition is_currently_up :: "probe_result \<Rightarrow> probe_result \<Rightarrow> bool" where
  "is_currently_up fe_res be_res \<longleftrightarrow> status fe_res = ''UP'' \<and> status be_res = ''UP''"

definition update_counters :: "bool \<Rightarrow> alert_state \<Rightarrow> alert_state" where
  "update_counters up s =
     (if \<not> up
      then s\<lparr>consecutive_failures := consecutive_failures s + 1, consecutive_successes := 0\<rparr>
      else s\<lparr>consecutive_successes := consecutive_successes s + 1, consecutive_failures := 0\<rparr>)"

definition error_line :: "string \<Rightarrow> string option" where
  "error_line e = (if e \<noteq> [] then Some e else None)"

definition down_alert :: "probe_result \<Rightarrow> probe_result \<Rightarrow> message" where
  "down_alert fe_res be_res =
     DownAlert (status fe_res) (code fe_res) (status be_res) (code be_res)
       (error_line (error fe_res)) (error_line (error be_res))"

text \<open>
  The two edges work on the state together with the list of messages sent so far in
  this tick (\<^verbatim>\<open>send_telegram\<close> appends to it).
\<close>

definition falling_edge ::
  "probe_result \<Rightarrow> probe_result \<Rightarrow> alert_state \<times> message list \<Rightarrow> alert_state \<times> message list" where
  "falling_edge fe_res be_res = (\<lambda>(s, sent).
     if consecutive_failures s = 3 \<and> last_alert_status s = ''UP''
     then (s\<lparr>last_alert_status := ''DOWN''\<rparr>, sent @ [down_alert fe_res be_res])
     else (s, sent))"

definition recovery_edge :: "alert_state \<times> message list \<Rightarrow> alert_state \<times> message list" where
  "recovery_edge = (\<lambda>(s, sent).
     if consecutive_successes s = 3 \<and> last_alert_status s = ''DOWN''
     then (s\<lparr>last_alert_status := ''UP''\<rparr>, sent @ [RecoveryNotice])
     else (s, sent))"

definition alert_logic ::
  "probe_result \<Rightarrow> probe_result \<Rightarrow> alert_state \<Rightarrow> alert_state \<times> message list" where
  "alert_logic fe_res be_res s =
     recovery_edge (falling_edge fe_res be_res
       (update_counters (is_currently_up fe_res be_res) s, []))"

text \<open>
  A run of the state machine over the probe pairs of successive ticks: the result lists,
  for every tick, the state after the tick and the messages sent in it.
\<close>

fun alert_run ::
  "alert_state \<Rightarrow> (probe_result \<times> probe_result) list \<Rightarrow> (alert_state \<times> message list) list" where
  "alert_run s [] = []"
| "alert_run s ((fe_res, be_res) # ticks) =
     (let r = alert_logic fe_res be_res s in r # alert_run (fst r) ticks)"

text \<open>
  The state a run ends in, and the state tick \<open>i\<close> of a run starts from (the given
  state for the first tick, the state after the tick before otherwise).
\<close>

definition state_after :: "alert_state \<Rightarrow> (probe_result \<times> probe_result) list \<Rightarrow> alert_state" where
  "state_after s ticks = fold (\<lambda>(fe_res, be_res) s'. fst (alert_logic fe_res be_res s')) ticks s"

definition state_before ::
  "alert_state \<Rightarrow> (probe_result \<times> probe_result) list \<Rightarrow> nat \<Rightarrow> alert_state" where
  "state_before s ticks i = (if i = 0 then s else fst (alert_run s ticks ! (i - 1)))"

fun is_down_alert :: "message \<Rightarrow> bool" where
  "is_down_alert (DownAlert fe_status fe_code be_status be_code fe_error be_error) = True"
| "is_down_alert m = False"

fun is_recovery :: "message \<Rightarrow> bool" where
  "is_recovery RecoveryNotice = True"
| "is_recovery m = False"

text \<open>Probe results used as concrete inputs: both endpoints up, and a failed frontend.\<close>

definition probe_up :: probe_result where
  "probe_up = \<lparr>url = ''https://localhost/'', status = ''UP'', code = 200,
     latency_ms = 12, error = []\<rparr>"

definition probe_down :: probe_result where
  "probe_down = \<lparr>url = ''https://localhost/'', status = ''DOWN'', code = 0,
     latency_ms = 10000, error = ''timed out''\<rparr>"

definition down_state :: alert_state where
  "down_state = \<lparr>last_alert_status = ''DOWN'', consecutive_failures = 3,
     consecutive_successes = 0, last_summary_date = []\<rparr>"

definition down_one_success :: alert_state where
  "down_one_success = \<lparr>last_alert_status = ''DOWN'', consecutive_failures = 0,
     consecutive_successes = 1, last_summary_date = []\<rparr>"

definition initial_state :: alert_state where
  "initial_state = \<lparr>last_alert_status = ''UP'', consecutive_failures = 0,
     consecutive_successes = 0, last_summary_date = []\<rparr>"


section \<open>Python values read back from the files\<close>

text \<open>
  Exceptions of the Python code are values: a computation that can raise returns
  \<open>py_error + 'a\<close>, with \<open>Inl\<close> for the exception.
\<close>

datatype py_error = KeyError | TypeError | IndexError | OverflowError | UnicodeDecodeError

text \<open>
  What \<^verbatim>\<open>json.loads\<close> returns. A dictionary is the list of its items, looked up
  by key. A number is carried as a real number; the model passes numbers on and never
  computes with them.
\<close>

datatype json =
    JNull
  | JBool bool
  | JNum real
  | JStr string
  | JList "json list"
  | JDict "(string \<times> json) list"

text \<open>\<^verbatim>\<open>v[key]\<close> for a string key: only a dictionary that has the key answers.\<close>

fun getitem :: "json \<Rightarrow> string \<Rightarrow> py_error + json" where
  "getitem (JDict items) k = (case map_of items k of None \<Rightarrow> Inl KeyError | Some v \<Rightarrow> Inr v)"
| "getitem v k = Inl TypeError"

text \<open>\<^verbatim>\<open>v[:10]\<close>: strings and lists can be sliced, everything else raises.\<close>

fun slice10 :: "json \<Rightarrow> py_error + json" where
  "slice10 (JStr s) = Inr (JStr (take 10 s))"
| "slice10 (JList vs) = Inr (JList (take 10 vs))"
| "slice10 v = Inl TypeError"

text \<open>
  Python compares strings lexicographically by code point; a proper prefix is smaller.
\<close>

fun py_str_le :: "string \<Rightarrow> string \<Rightarrow> bool" where
  "py_str_le [] t = True"
| "py_str_le (c # s) [] = False"
| "py_str_le (c # s) (d # t) =
     (if (of_char c :: nat) < of_char d then True
      else if (of_char d :: nat) < of_char c then False
      else py_str_le s t)"

text \<open>\<^verbatim>\<open>v >= cutoff\<close> for a string \<^verbatim>\<open>cutoff\<close>: any other type on the left raises.\<close>

fun ge_str :: "json \<Rightarrow> string \<Rightarrow> py_error + bool" where
  "ge_str (JStr s) cutoff = Inr (py_str_le cutoff s)"
| "ge_str v cutoff = Inl TypeError"

text \<open>\<^verbatim>\<open>s["resources"]["timestamp"][:10]\<close>, the date part of a record's timestamp.\<close>

definition record_date :: "json \<Rightarrow> py_error + json" where
  "record_date s =
     (case getitem s ''resources'' of Inl e \<Rightarrow> Inl e
      | Inr r \<Rightarrow> (case getitem r ''timestamp'' of Inl e \<Rightarrow> Inl e | Inr t \<Rightarrow> slice10 t))"

text \<open>\<^verbatim>\<open>s[part]["status"] == "UP"\<close> and \<^verbatim>\<open>s[part][field]\<close>.\<close>

definition getitem2 :: "json \<Rightarrow> string \<Rightarrow> string \<Rightarrow> py_error + json" where
  "getitem2 s part field =
     (case getitem s part of Inl e \<Rightarrow> Inl e | Inr v \<Rightarrow> getitem v field)"

definition status_is_up :: "json \<Rightarrow> string \<Rightarrow> py_error + bool" where
  "status_is_up s part =
     (case getitem2 s part ''status'' of Inl e \<Rightarrow> Inl e | Inr v \<Rightarrow> Inr (v = JStr ''UP''))"

section \<open>Sample records\<close>

record resource_metrics =
  timestamp :: string
  cpu_percent :: real
  mem_percent :: real
  disk_percent :: real
  load_avg :: "real list"

record sample =
  frontend :: probe_result
  backend :: probe_result
  resources :: resource_metrics

text \<open>The dictionaries built by \<^verbatim>\<open>probe_url\<close>, \<^verbatim>\<open>get_resource_metrics\<close> and \<^verbatim>\<open>main\<close>.\<close>

definition json_of_probe :: "probe_result \<Rightarrow> json" where
  "json_of_probe r = JDict
     [(''url'', JStr (url r)), (''status'', JStr (status r)), (''code'', JNum (of_int (code r))),
      (''latency_ms'', JNum (of_int (latency_ms r))), (''error'', JStr (error r))]"

definition json_of_resources :: "resource_metrics \<Rightarrow> json" where
  "json_of_resources m = JDict
     [(''timestamp'', JStr (timestamp m)), (''cpu_percent'', JNum (cpu_percent m)),
      (''mem_percent'', JNum (mem_percent m)), (''disk_percent'', JNum (disk_percent m)),
      (''load_avg'', JList (map JNum (load_avg m)))]"

definition json_of_sample :: "sample \<Rightarrow> json" where
  "json_of_sample smp = JDict
     [(''frontend'', json_of_probe (frontend smp)), (''backend'', json_of_probe (backend smp)),
      (''resources'', json_of_resources (resources smp))]"

definition json_of_state :: "alert_state \<Rightarrow> json" where
  "json_of_state s = JDict
     [(''last_alert_status'', JStr (last_alert_status s)),
      (''consecutive_failures'', JNum (of_int (consecutive_failures s))),
      (''consecutive_successes'', JNum (of_int (consecutive_successes s))),
      (''last_summary_date'', JStr (last_summary_date s))]"

section \<open>Files\<close>

text \<open>
  The monitor uses three paths. A file is absent or holds a sequence of bytes. The source
  opens its files in text mode, so what it reads is decoded and what it writes is encoded
  with the encoding of the platform. The codec belongs to Python's library, as do the
  serialiser \<^verbatim>\<open>json.dumps\<close> and the parser \<^verbatim>\<open>json.loads\<close>: they are the parameters
  \<open>decode\<close>, \<open>encode\<close>, \<open>dumps\<close> and \<open>loads\<close> of the model. \<open>decode\<close> answers \<open>None\<close> where
  decoding raises \<^verbatim>\<open>UnicodeDecodeError\<close>, \<open>loads\<close> answers \<open>None\<close> where
  \<^verbatim>\<open>json.loads\<close> raises. Encoding does not fail on what the monitor writes: the
  ASCII text of \<^verbatim>\<open>json.dumps\<close> and lines that the same codec has decoded. Bytes and
  the characters of decoded text are both values of type \<open>char\<close>. Failures of the
  operating system (full disk, permissions) are outside the model.
\<close>

datatype path = StateFile | SamplesFile | SamplesTmp

type_synonym files = "path \<Rightarrow> string option"

text \<open>
  File operations are the effects of the calls the source makes: \<^verbatim>\<open>open(p, "w")\<close>
  creates or empties the file, writing adds bytes to its end, \<^verbatim>\<open>open(p, "a")\<close> followed
  by a write adds bytes to the end of the file or of a new one, \<^verbatim>\<open>os.replace\<close>
  renames. On the platform of the monitor a line feed is written as it is.
\<close>

datatype fs_op =
    OpenTruncate path
  | WriteBytes path string
  | AppendBytes path string
  | Replace path path

definition contents :: "files \<Rightarrow> path \<Rightarrow> string" where
  "contents fs p = (case fs p of None \<Rightarrow> [] | Some bytes \<Rightarrow> bytes)"

fun apply_op :: "fs_op \<Rightarrow> files \<Rightarrow> files" where
  "apply_op (OpenTruncate p) fs = fs(p \<mapsto> [])"
| "apply_op (WriteBytes p bytes) fs = fs(p \<mapsto> contents fs p @ bytes)"
| "apply_op (AppendBytes p bytes) fs = fs(p \<mapsto> contents fs p @ bytes)"
| "apply_op (Replace src dst) fs = (fs(dst := fs src))(src := None)"

text \<open>
  The file systems another process or a restart can observe while a list of operations
  runs: the one before, and the one after each operation.
\<close>

fun observable :: "files \<Rightarrow> fs_op list \<Rightarrow> files list" where
  "observable fs [] = [fs]"
| "observable fs (operation # ops) = fs # observable (apply_op operation fs) ops"

definition run_ops :: "fs_op list \<Rightarrow> files \<Rightarrow> files" where
  "run_ops ops fs = fold apply_op ops fs"

text \<open>
  Reading in text mode. After decoding, every line end (carriage return and line feed,
  or a carriage return alone) becomes a line feed. Iteration over the file delivers the
  lines with their line feed; the last line may have none. Decoding goes on while the
  lines are read, so an undecodable file raises in the middle of the loop that reads it.
\<close>

definition LF :: char where
  "LF = CHR 0x0A"

definition CR :: char where
  "CR = CHR 0x0D"

fun universal_newlines :: "string \<Rightarrow> string" where
  "universal_newlines [] = []"
| "universal_newlines [c] = [if c = CR then LF else c]"
| "universal_newlines (c # d # s) =
     (if c = CR \<and> d = LF then LF # universal_newlines s
      else if c = CR then LF # universal_newlines (d # s)
      else c # universal_newlines (d # s))"

fun split_lines :: "string \<Rightarrow> string \<Rightarrow> string list" where
  "split_lines cur [] = (if cur = [] then [] else [cur])"
| "split_lines cur (c # s) =
     (if c = LF then (cur @ [c]) # split_lines [] s else split_lines (cur @ [c]) s)"

definition read_lines :: "(string \<Rightarrow> string option) \<Rightarrow> string \<Rightarrow> string list option" where
  "read_lines decode bytes =
     (case decode bytes of
        None \<Rightarrow> None
      | Some decoded \<Rightarrow> Some (split_lines [] (universal_newlines decoded)))"

text \<open>
  A line as the monitor writes it: some text without line ends, then one line feed.
\<close>

definition proper_line :: "string \<Rightarrow> bool" where
  "proper_line l \<longleftrightarrow>
     l \<noteq> [] \<and> last l = LF \<and> LF \<notin> set (butlast l) \<and> CR \<notin> set (butlast l)"

text \<open>
  \<^verbatim>\<open>save_state\<close>: \<^verbatim>\<open>open(STATE_FILE, "w")\<close>, then \<^verbatim>\<open>json.dump(state, f)\<close>.
\<close>

definition save_state_ops ::
  "(string \<Rightarrow> string) \<Rightarrow> (json \<Rightarrow> string) \<Rightarrow> alert_state \<Rightarrow> fs_op list" where
  "save_state_ops encode dumps s =
     [OpenTruncate StateFile, WriteBytes StateFile (encode (dumps (json_of_state s)))]"

definition save_state ::
  "(string \<Rightarrow> string) \<Rightarrow> (json \<Rightarrow> string) \<Rightarrow> alert_state \<Rightarrow> files \<Rightarrow> files" where
  "save_state encode dumps s fs = run_ops (save_state_ops encode dumps s) fs"

text \<open>
  \<^verbatim>\<open>load_state\<close> returns whatever \<^verbatim>\<open>json.load\<close> reads from the state file, and
  the default state when the file is absent, does not decode or does not parse.
\<close>

definition load_state ::
  "(string \<Rightarrow> string option) \<Rightarrow> (string \<Rightarrow> json option) \<Rightarrow> files \<Rightarrow> json" where
  "load_state decode loads fs =
     (case fs StateFile of
        None \<Rightarrow> json_of_state initial_state
      | Some bytes \<Rightarrow>
        (case decode bytes of
           None \<Rightarrow> json_of_state initial_state
         | Some decoded \<Rightarrow>
           (case loads (universal_newlines decoded) of
              None \<Rightarrow> json_of_state initial_state
            | Some v \<Rightarrow> v)))"

text \<open>
  A list of operations changes a file all-or-nothing when every observable file system
  shows the file either as it was before or as it is at the end.
\<close>

definition all_or_nothing :: "path \<Rightarrow> files \<Rightarrow> fs_op list \<Rightarrow> bool" where
  "all_or_nothing p fs ops =
     list_all (\<lambda>fs'. fs' p = fs p \<or> fs' p = run_ops ops fs p) (observable fs ops)"

fun is_replace :: "fs_op \<Rightarrow> bool" where
  "is_replace (Replace src dst) = True"
| "is_replace operation = False"

text \<open>Step 2 of the loop body: \<^verbatim>\<open>f.write(json.dumps(sample) + "\n")\<close> in append mode.\<close>

definition sample_line :: "(json \<Rightarrow> string) \<Rightarrow> sample \<Rightarrow> string" where
  "sample_line dumps smp = dumps (json_of_sample smp) @ [LF]"

definition append_sample ::
  "(string \<Rightarrow> string) \<Rightarrow> (json \<Rightarrow> string) \<Rightarrow> sample \<Rightarrow> files \<Rightarrow> files" where
  "append_sample encode dumps smp fs =
     apply_op (AppendBytes SamplesFile (encode (sample_line dumps smp))) fs"

section \<open>Calendar dates and the clock\<close>

text \<open>
  \<^verbatim>\<open>datetime\<close> is Python's library. Its dates are those of the proleptic Gregorian
  calendar with years 1 to 9999; adding or subtracting days outside that range raises
  \<^verbatim>\<open>OverflowError\<close>. Subtracting \<open>k\<close> days is modelled by stepping one day at a time.
\<close>

record date =
  year :: int
  month :: nat
  day :: nat

definition is_leap :: "int \<Rightarrow> bool" where
  "is_leap y \<longleftrightarrow> y mod 4 = 0 \<and> (y mod 100 \<noteq> 0 \<or> y mod 400 = 0)"

definition days_in_month :: "int \<Rightarrow> nat \<Rightarrow> nat" where
  "days_in_month y m =
     (if m = 2 then (if is_leap y then 29 else 28)
      else if m = 4 \<or> m = 6 \<or> m = 9 \<or> m = 11 then 30 else 31)"

definition valid_date :: "date \<Rightarrow> bool" where
  "valid_date d \<longleftrightarrow> 1 \<le> month d \<and> month d \<le> 12 \<and> 1 \<le> day d \<and> day d \<le> days_in_month (year d) (month d)"

definition prev_day :: "date \<Rightarrow> date" where
  "prev_day d =
     (if 1 < day d then d\<lparr>day := day d - 1\<rparr>
      else if 1 < month d
      then d\<lparr>month := month d - 1, day := days_in_month (year d) (month d - 1)\<rparr>
      else \<lparr>year = year d - 1, month = 12, day = 31\<rparr>)"

definition next_day :: "date \<Rightarrow> date" where
  "next_day d =
     (if day d < days_in_month (year d) (month d) then d\<lparr>day := day d + 1\<rparr>
      else if month d < 12 then d\<lparr>month := month d + 1, day := 1\<rparr>
      else \<lparr>year = year d + 1, month = 1, day = 1\<rparr>)"

definition date_minus_days :: "date \<Rightarrow> int \<Rightarrow> py_error + date" where
  "date_minus_days d k =
     (let r = (if 0 \<le> k then (prev_day ^^ nat k) d else (next_day ^^ nat (- k)) d)
      in if 1 \<le> year r \<and> year r \<le> 9999 then Inr r else Inl OverflowError)"

text \<open>The date \<open>k\<close> days before a date, and the order of the calendar.\<close>

definition days_before :: "date \<Rightarrow> nat \<Rightarrow> date" where
  "days_before d k = (prev_day ^^ k) d"

definition date_le :: "date \<Rightarrow> date \<Rightarrow> bool" where
  "date_le c d \<longleftrightarrow>
     year c < year d \<or>
     (year c = year d \<and> (month c < month d \<or> (month c = month d \<and> day c \<le> day d)))"

definition date_key :: "date \<Rightarrow> int" where
  "date_key d = 372 * year d + 31 * int (month d) + int (day d)"

text \<open>
  Dates as text. \<^verbatim>\<open>isoformat\<close>, which writes the timestamp of a sample, starts with
  the year in four, the month in two and the day in two decimal digits. The monitor runs
  on Linux, where \<^verbatim>\<open>strftime("%Y-%m-%d")\<close> writes the year without leading zeros
  and the month and the day in two digits: the two agree from the year 1000 on.
\<close>

definition digit_char :: "nat \<Rightarrow> char" where
  "digit_char n = ''0123456789'' ! (n mod 10)"

fun decimal :: "nat \<Rightarrow> nat \<Rightarrow> string" where
  "decimal 0 n = []"
| "decimal (Suc w) n = decimal w (n div 10) @ [digit_char n]"

fun digits :: "nat \<Rightarrow> string" where
  "digits n = (if n < 10 then [digit_char n] else digits (n div 10) @ [digit_char n])"

declare digits.simps [simp del]

definition iso_date :: "date \<Rightarrow> string" where
  "iso_date d =
     decimal 4 (nat (year d)) @ ''-'' @ decimal 2 (month d) @ ''-'' @ decimal 2 (day d)"

definition strftime_ymd :: "date \<Rightarrow> string" where
  "strftime_ymd d =
     digits (nat (year d)) @ ''-'' @ decimal 2 (month d) @ ''-'' @ decimal 2 (day d)"

text \<open>One reading of \<^verbatim>\<open>datetime.now(timezone.utc)\<close>: the date, the hour and the minute.\<close>

record instant =
  today :: date
  hour :: nat
  minute :: nat

section \<open>The daily summary scan (\<^verbatim>\<open>run_daily_summary\<close>, the loop over the file)\<close>

record scan_acc =
  fe_latencies :: "json list"
  be_latencies :: "json list"
  mem_percents :: "json list"
  disk_percents :: "json list"
  total_samples :: int
  fe_up_count :: int
  be_up_count :: int
  both_up_count :: int

definition empty_acc :: scan_acc where
  "empty_acc = \<lparr>fe_latencies = [], be_latencies = [], mem_percents = [], disk_percents = [],
     total_samples = 0, fe_up_count = 0, be_up_count = 0, both_up_count = 0\<rparr>"

text \<open>
  The statements of the \<^verbatim>\<open>try\<close> block change the accumulators one after the other.
  A statement that raises leaves the changes made before it in place; the \<^verbatim>\<open>except\<close>
  clause then goes on to the next line. In the three helpers \<open>Inl\<close> carries the
  accumulators at the point where an exception was raised.
\<close>

definition count_frontend :: "json \<Rightarrow> bool \<Rightarrow> scan_acc \<Rightarrow> scan_acc + scan_acc" where
  "count_frontend s fe_up a =
     (if fe_up
      then (case getitem2 s ''frontend'' ''latency_ms'' of
              Inl e \<Rightarrow> Inl (a\<lparr>fe_up_count := fe_up_count a + 1\<rparr>)
            | Inr v \<Rightarrow> Inr (a\<lparr>fe_up_count := fe_up_count a + 1,
                               fe_latencies := fe_latencies a @ [v]\<rparr>))
      else Inr a)"

definition count_backend :: "json \<Rightarrow> bool \<Rightarrow> scan_acc \<Rightarrow> scan_acc + scan_acc" where
  "count_backend s be_up a =
     (if be_up
      then (case getitem2 s ''backend'' ''latency_ms'' of
              Inl e \<Rightarrow> Inl (a\<lparr>be_up_count := be_up_count a + 1\<rparr>)
            | Inr v \<Rightarrow> Inr (a\<lparr>be_up_count := be_up_count a + 1,
                               be_latencies := be_latencies a @ [v]\<rparr>))
      else Inr a)"

definition count_resources :: "json \<Rightarrow> scan_acc \<Rightarrow> scan_acc" where
  "count_resources s a =
     (case getitem2 s ''resources'' ''mem_percent'' of
        Inl e \<Rightarrow> a
      | Inr m \<Rightarrow>
        (case getitem2 s ''resources'' ''disk_percent'' of
           Inl e \<Rightarrow> a\<lparr>mem_percents := mem_percents a @ [m]\<rparr>
         | Inr d \<Rightarrow> a\<lparr>mem_percents := mem_percents a @ [m],
                         disk_percents := disk_percents a @ [d]\<rparr>))"

definition scan_line :: "(string \<Rightarrow> json option) \<Rightarrow> string \<Rightarrow> string \<Rightarrow> scan_acc \<Rightarrow> scan_acc" where
  "scan_line loads yesterday line a =
     (case loads line of
        None \<Rightarrow> a
      | Some s \<Rightarrow>
        (case record_date s of
           Inl e \<Rightarrow> a
         | Inr ts \<Rightarrow>
           if ts \<noteq> JStr yesterday then a
           else
             let a1 = a\<lparr>total_samples := total_samples a + 1\<rparr> in
             (case status_is_up s ''frontend'' of
                Inl e \<Rightarrow> a1
              | Inr fe_up \<Rightarrow>
                (case status_is_up s ''backend'' of
                   Inl e \<Rightarrow> a1
                 | Inr be_up \<Rightarrow>
                   (case count_frontend s fe_up a1 of
                      Inl a2 \<Rightarrow> a2
                    | Inr a2 \<Rightarrow>
                      (case count_backend s be_up a2 of
                         Inl a3 \<Rightarrow> a3
                       | Inr a3 \<Rightarrow>
                         count_resources s
                           (if fe_up \<and> be_up
                            then a3\<lparr>both_up_count := both_up_count a3 + 1\<rparr>
                            else a3)))))))"

text \<open>
  The whole scan. A samples file that does not exist is not opened. The loop that reads
  the lines is outside the \<^verbatim>\<open>try\<close> of its body, so a file that does not decode
  raises \<^verbatim>\<open>UnicodeDecodeError\<close> out of the scan.
\<close>

definition scan_lines :: "(string \<Rightarrow> json option) \<Rightarrow> string \<Rightarrow> string list \<Rightarrow> scan_acc" where
  "scan_lines loads yesterday lines = fold (scan_line loads yesterday) lines empty_acc"

definition scan_samples ::
  "(string \<Rightarrow> string option) \<Rightarrow> (string \<Rightarrow> json option) \<Rightarrow> string \<Rightarrow> string option \<Rightarrow>
     py_error + scan_acc" where
  "scan_samples decode loads yesterday stored =
     (case stored of
        None \<Rightarrow> Inr empty_acc
      | Some bytes \<Rightarrow>
        (case read_lines decode bytes of
           None \<Rightarrow> Inl UnicodeDecodeError
         | Some lines \<Rightarrow> Inr (scan_lines loads yesterday lines)))"

text \<open>
  What the specification calls reading for a date, over sample records instead of lines:
  the records of the date, in order, and the series and counts they give.
\<close>

definition sample_date :: "sample \<Rightarrow> string" where
  "sample_date smp = take 10 (timestamp (resources smp))"

definition probe_is_up :: "probe_result \<Rightarrow> bool" where
  "probe_is_up r \<longleftrightarrow> status r = ''UP''"

definition summarise :: "sample list \<Rightarrow> scan_acc" where
  "summarise smps =
     \<lparr>fe_latencies = map (\<lambda>smp. JNum (of_int (latency_ms (frontend smp))))
        (filter (\<lambda>smp. probe_is_up (frontend smp)) smps),
      be_latencies = map (\<lambda>smp. JNum (of_int (latency_ms (backend smp))))
        (filter (\<lambda>smp. probe_is_up (backend smp)) smps),
      mem_percents = map (\<lambda>smp. JNum (mem_percent (resources smp))) smps,
      disk_percents = map (\<lambda>smp. JNum (disk_percent (resources smp))) smps,
      total_samples = int (length smps),
      fe_up_count = int (length (filter (\<lambda>smp. probe_is_up (frontend smp)) smps)),
      be_up_count = int (length (filter (\<lambda>smp. probe_is_up (backend smp)) smps)),
      both_up_count = int (length
        (filter (\<lambda>smp. probe_is_up (frontend smp) \<and> probe_is_up (backend smp)) smps))\<rparr>"

text \<open>
  A line is unrelated to a date when the scan cannot read that date off it: the line
  does not parse, the parsed value has no timestamp to slice, or the date differs.
\<close>

definition unrelated_line :: "(string \<Rightarrow> json option) \<Rightarrow> string \<Rightarrow> string \<Rightarrow> bool" where
  "unrelated_line loads yesterday line =
     (case loads line of None \<Rightarrow> True
      | Some s \<Rightarrow> (case record_date s of Inl e \<Rightarrow> True | Inr ts \<Rightarrow> ts \<noteq> JStr yesterday))"

section \<open>Pruning (\<^verbatim>\<open>prune_samples\<close>)\<close>

text \<open>Whether the loop body writes the line: every exception skips the line.\<close>

definition keep_line :: "(string \<Rightarrow> json option) \<Rightarrow> string \<Rightarrow> string \<Rightarrow> bool" where
  "keep_line loads cutoff line =
     (case loads line of
        None \<Rightarrow> False
      | Some s \<Rightarrow>
        (case record_date s of
           Inl e \<Rightarrow> False
         | Inr d \<Rightarrow> (case ge_str d cutoff of Inl e \<Rightarrow> False | Inr b \<Rightarrow> b)))"

text \<open>The loop over the lines of the samples file; \<open>out\<close> is what was written so far.\<close>

fun prune_loop ::
  "(string \<Rightarrow> json option) \<Rightarrow> string \<Rightarrow> string list \<Rightarrow> string list \<Rightarrow> string list" where
  "prune_loop loads cutoff [] out = out"
| "prune_loop loads cutoff (line # rest) out =
     prune_loop loads cutoff rest (if keep_line loads cutoff line then out @ [line] else out)"

definition prune_ops ::
  "(string \<Rightarrow> string) \<Rightarrow> (string \<Rightarrow> json option) \<Rightarrow> string \<Rightarrow> string list \<Rightarrow> fs_op list" where
  "prune_ops encode loads cutoff lines =
     [OpenTruncate SamplesTmp,
      WriteBytes SamplesTmp (encode (concat (prune_loop loads cutoff lines []))),
      Replace SamplesTmp SamplesFile]"

text \<open>
  The cutoff is computed before the \<^verbatim>\<open>try\<close>, so its \<^verbatim>\<open>OverflowError\<close> leaves the
  function. A samples file that cannot be opened is reported and nothing is written. A
  samples file that does not decode raises while its lines are read: the exception is
  caught and reported, the samples file is not replaced, and the temporary file stays
  with the bytes that had reached it. Which bytes these are depends on the buffers of the
  reader and the writer; they are the input \<open>flushed\<close>.
\<close>

definition prune_samples ::
  "(string \<Rightarrow> string option) \<Rightarrow> (string \<Rightarrow> string) \<Rightarrow> (string \<Rightarrow> json option) \<Rightarrow> int \<Rightarrow>
     instant \<Rightarrow> string \<Rightarrow> files \<Rightarrow> py_error option \<times> files" where
  "prune_samples decode encode loads retention_days now flushed fs =
     (case date_minus_days (today now) retention_days of
        Inl e \<Rightarrow> (Some e, fs)
      | Inr c \<Rightarrow>
        (case fs SamplesFile of
           None \<Rightarrow> (None, fs)
         | Some bytes \<Rightarrow>
           (case read_lines decode bytes of
              None \<Rightarrow> (None, fs(SamplesTmp \<mapsto> flushed))
            | Some lines \<Rightarrow>
              (None, run_ops (prune_ops encode loads (strftime_ymd c) lines) fs))))"

section \<open>The daily summary and the loop body\<close>

text \<open>
  The text of the report is computed from the counts and series of the scan with
  floating-point arithmetic and number formatting (\<^verbatim>\<open>fmt_stats\<close>,
  \<^verbatim>\<open>calculate_percentile\<close>, the f-strings). The model does not compute with
  floating-point numbers: the text, or the exception raised while it is computed, is the
  input \<open>render\<close>.

  \<^verbatim>\<open>run_daily_summary\<close> changes the state dictionary in place, sends messages and
  rewrites files; an exception leaves it with the changes made so far. The result is the
  exception, if any, the state, the messages sent and the files.
\<close>

definition run_daily_summary ::
  "(string \<Rightarrow> string option) \<Rightarrow> (string \<Rightarrow> string) \<Rightarrow> (string \<Rightarrow> json option) \<Rightarrow>
     (string \<Rightarrow> scan_acc \<Rightarrow> py_error + string) \<Rightarrow> int \<Rightarrow> instant \<Rightarrow> instant \<Rightarrow> string \<Rightarrow>
     alert_state \<Rightarrow> files \<Rightarrow> py_error option \<times> alert_state \<times> message list \<times> files" where
  "run_daily_summary decode encode loads render retention_days now_summary now_prune flushed s fs =
     (case date_minus_days (today now_summary) 1 of
        Inl e \<Rightarrow> (Some e, s, [], fs)
      | Inr y \<Rightarrow>
        let yesterday = strftime_ymd y in
        if last_summary_date s = yesterday then (None, s, [], fs)
        else
          (case scan_samples decode loads yesterday (fs SamplesFile) of
             Inl e \<Rightarrow> (Some e, s, [], fs)
           | Inr a \<Rightarrow>
             if total_samples a = 0 then (None, s\<lparr>last_summary_date := yesterday\<rparr>, [], fs)
             else
               (case render yesterday a of
                  Inl e \<Rightarrow> (Some e, s, [], fs)
                | Inr report \<Rightarrow>
                  (case prune_samples decode encode loads retention_days now_prune flushed fs of
                     (err, fs') \<Rightarrow>
                       (err, s\<lparr>last_summary_date := yesterday\<rparr>, [DailySummary report], fs')))))"

text \<open>
  One iteration of the loop of \<^verbatim>\<open>main\<close>. The probes, the resource snapshot, the
  clock readings and the bytes a failed pruning leaves behind are inputs. An exception
  skips the rest of the iteration, so the state is not saved in that iteration.
\<close>

record tick_input =
  fe_probe :: probe_result
  be_probe :: probe_result
  metrics :: resource_metrics
  clock_main :: instant
  clock_summary :: instant
  clock_prune :: instant
  prune_flushed :: string

definition tick ::
  "(string \<Rightarrow> string option) \<Rightarrow> (string \<Rightarrow> string) \<Rightarrow> (string \<Rightarrow> json option) \<Rightarrow>
     (json \<Rightarrow> string) \<Rightarrow> (string \<Rightarrow> scan_acc \<Rightarrow> py_error + string) \<Rightarrow> int \<Rightarrow> tick_input \<Rightarrow>
     alert_state \<times> files \<Rightarrow> alert_state \<times> message list \<times> files" where
  "tick decode encode loads dumps render retention_days inp = (\<lambda>(s, fs).
     let fs1 = append_sample encode dumps
           \<lparr>frontend = fe_probe inp, backend = be_probe inp, resources = metrics inp\<rparr> fs;
         (s1, sent1) = alert_logic (fe_probe inp) (be_probe inp) s
     in if hour (clock_main inp) = 0 \<and> 5 \<le> minute (clock_main inp)
        then (case run_daily_summary decode encode loads render retention_days
                     (clock_summary inp) (clock_prune inp) (prune_flushed inp) s1 fs1 of
                (None, s2, sent2, fs2) \<Rightarrow> (s2, sent1 @ sent2, save_state encode dumps s2 fs2)
              | (Some e, s2, sent2, fs2) \<Rightarrow> (s2, sent1 @ sent2, fs2))
        else (s1, sent1, save_state encode dumps s1 fs1))"

section \<open>Concrete inputs\<close>

text \<open>
  Three sample records, two of 14 March 2024 and one of the day after, a serialiser and a
  parser that are inverse to each other on them, and some lines that the monitor did not
  write: a record without \<^verbatim>\<open>mem_percent\<close>, a record of another day without
  probes, an empty dictionary and text that does not parse.
\<close>

definition sample_a :: sample where
  "sample_a = \<lparr>frontend = probe_up, backend = probe_down,
     resources = \<lparr>timestamp = ''2024-03-14T00:01:00.000000+00:00'', cpu_percent = 0,
       mem_percent = 41.5, disk_percent = 63, load_avg = [0.1, 0.2, 0.3]\<rparr>\<rparr>"

definition sample_b :: sample where
  "sample_b = \<lparr>frontend = probe_up, backend = probe_up,
     resources = \<lparr>timestamp = ''2024-03-15T00:01:00.000000+00:00'', cpu_percent = 0,
       mem_percent = 42, disk_percent = 63, load_avg = [0.1, 0.2, 0.3]\<rparr>\<rparr>"

definition sample_c :: sample where
  "sample_c = \<lparr>frontend = probe_up, backend = probe_up,
     resources = \<lparr>timestamp = ''2024-03-14T23:59:00.000000+00:00'', cpu_percent = 0,
       mem_percent = 43, disk_percent = 64, load_avg = [0.1, 0.2, 0.3]\<rparr>\<rparr>"

definition partial_record :: json where
  "partial_record = JDict
     [(''frontend'', JDict [(''status'', JStr ''UP''), (''latency_ms'', JNum 12)]),
      (''backend'', JDict [(''status'', JStr ''UP''), (''latency_ms'', JNum 7)]),
      (''resources'', JDict [(''timestamp'', JStr ''2024-03-14T00:02:00.000000+00:00''),
         (''disk_percent'', JNum 63)])]"

definition other_day_record :: json where
  "other_day_record = JDict
     [(''resources'', JDict [(''timestamp'', JStr ''2024-03-13T00:02:00.000000+00:00'')])]"

definition table_dumps :: "json \<Rightarrow> string" where
  "table_dumps j =
     (if j = json_of_sample sample_a then ''A''
      else if j = json_of_sample sample_b then ''B''
      else if j = json_of_sample sample_c then ''C''
      else if j = json_of_state initial_state then ''S0''
      else if j = json_of_state down_state then ''S1''
      else ''?'')"

definition table_loads :: "string \<Rightarrow> json option" where
  "table_loads = map_of
     [(''A'' @ [CHR 0x0A], json_of_sample sample_a),
      (''B'' @ [CHR 0x0A], json_of_sample sample_b),
      (''C'' @ [CHR 0x0A], json_of_sample sample_c),
      (''P'' @ [CHR 0x0A], partial_record),
      (''O'' @ [CHR 0x0A], other_day_record),
      (''{}'' @ [CHR 0x0A], JDict [])]"

definition junk_lines :: "string list" where
  "junk_lines = [''not json'' @ [CHR 0x0A], ''O'' @ [CHR 0x0A], ''{}'' @ [CHR 0x0A]]"

definition stored_lines :: "string list" where
  "stored_lines =
     [''not json'' @ [CHR 0x0A], ''A'' @ [CHR 0x0A], ''O'' @ [CHR 0x0A], ''B'' @ [CHR 0x0A],
      ''C'' @ [CHR 0x0A], ''{}'' @ [CHR 0x0A]]"

text \<open>
  Sample records for pruning: one record per date, with a serialiser that writes the date
  of a record and a parser that reads a date back into the record of that date.
\<close>

definition dated_sample :: "string \<Rightarrow> sample" where
  "dated_sample d = \<lparr>frontend = probe_up, backend = probe_up,
     resources = \<lparr>timestamp = d @ ''T00:00:00.000000+00:00'', cpu_percent = 0,
       mem_percent = 40, disk_percent = 60, load_avg = [0, 0, 0]\<rparr>\<rparr>"

definition date_dumps :: "json \<Rightarrow> string" where
  "date_dumps j = (case record_date j of Inr (JStr d) \<Rightarrow> d | _ \<Rightarrow> ''?'')"

definition date_loads :: "string \<Rightarrow> json option" where
  "date_loads l =
     (if length l = 11 then Some (json_of_sample (dated_sample (take 10 l))) else None)"

text \<open>
  The ASCII codec: a byte with its highest bit set does not decode, every other byte is
  the character of its own number. On bytes below 128 it agrees with UTF-8.
\<close>

definition ascii_decode :: "string \<Rightarrow> string option" where
  "ascii_decode bytes = (if list_ex digit7 bytes then None else Some bytes)"

definition ascii_encode :: "string \<Rightarrow> string" where
  "ascii_encode t = t"

definition plain_render :: "string \<Rightarrow> scan_acc \<Rightarrow> py_error + string" where
  "plain_render y a = Inr (''Daily Monitoring Summary: '' @ y)"

definition no_files :: files where
  "no_files = (\<lambda>p. None)"

definition march_15 :: instant where
  "march_15 = \<lparr>today = \<lparr>year = 2024, month = 3, day = 15\<rparr>, hour = 0, minute = 7\<rparr>"

definition march_15_of_999 :: instant where
  "march_15_of_999 = \<lparr>today = \<lparr>year = 999, month = 3, day = 15\<rparr>, hour = 0, minute = 7\<rparr>"

section \<open>Properties of the alert state machine\<close>

lemma alert_logic_counters:
  "consecutive_failures (fst (alert_logic fe_res be_res s)) =
     (if is_currently_up fe_res be_res then 0 else consecutive_failures s + 1)"
  "consecutive_successes (fst (alert_logic fe_res be_res s)) =
     (if is_currently_up fe_res be_res then consecutive_successes s + 1 else 0)"
  by (simp_all add: alert_logic_def recovery_edge_def falling_edge_def update_counters_def)

lemma alert_logic_sent:
  "snd (alert_logic fe_res be_res s) =
     (if \<not> is_currently_up fe_res be_res \<and> consecutive_failures s = 2 \<and> last_alert_status s = ''UP''
      then [down_alert fe_res be_res]
      else if is_currently_up fe_res be_res \<and> consecutive_successes s = 2 \<and> last_alert_status s = ''DOWN''
      then [RecoveryNotice] else [])"
  by (simp add: alert_logic_def recovery_edge_def falling_edge_def update_counters_def)

lemma alert_logic_status:
  "last_alert_status (fst (alert_logic fe_res be_res s)) =
     (if \<not> is_currently_up fe_res be_res \<and> consecutive_failures s = 2 \<and> last_alert_status s = ''UP''
      then ''DOWN''
      else if is_currently_up fe_res be_res \<and> consecutive_successes s = 2 \<and> last_alert_status s = ''DOWN''
      then ''UP'' else last_alert_status s)"
  by (simp add: alert_logic_def recovery_edge_def falling_edge_def update_counters_def)

lemma alert_run_length [simp]: "length (alert_run s ticks) = length ticks"
  by (induction s ticks rule: alert_run.induct) (simp_all add: Let_def)

lemma alert_run_snoc:
  "alert_run s (ticks @ [(fe_res, be_res)]) =
     alert_run s ticks @ [alert_logic fe_res be_res (state_after s ticks)]"
  by (induction s ticks rule: alert_run.induct) (simp_all add: Let_def state_after_def)

lemma state_after_snoc:
  "state_after s (ticks @ [(fe_res, be_res)]) = fst (alert_logic fe_res be_res (state_after s ticks))"
  by (simp add: state_after_def)

lemma alert_run_nth:
  "i < length ticks \<Longrightarrow>
     alert_run s ticks ! i = alert_logic (fst (ticks ! i)) (snd (ticks ! i)) (state_after s (take i ticks))"
proof (induction ticks arbitrary: i rule: rev_induct)
  case Nil
  then show ?case by simp
next
  case (snoc t ticks)
  obtain fe_res be_res where t: "t = (fe_res, be_res)" by (cases t)
  show ?case
  proof (cases "i < length ticks")
    case True
    with snoc.IH [of i] show ?thesis
      by (simp add: t alert_run_snoc nth_append)
  next
    case False
    with snoc.prems have "i = length ticks" by simp
    then show ?thesis
      by (simp add: t alert_run_snoc nth_append)
  qed
qed

lemma state_after_take_Suc:
  "i < length ticks \<Longrightarrow> state_after s (take (Suc i) ticks) = fst (alert_run s ticks ! i)"
  by (simp add: take_Suc_conv_app_nth alert_run_nth state_after_def split: prod.split)


lemma state_before_eq:
  "i < length ticks \<Longrightarrow> state_before s ticks i = state_after s (take i ticks)"
proof (cases i)
  case 0
  then show ?thesis by (simp add: state_before_def state_after_def)
next
  case (Suc k)
  assume "i < length ticks"
  with Suc show ?thesis by (simp add: state_before_def state_after_take_Suc)
qed

lemma alert_run_step:
  "i < length ticks \<Longrightarrow>
     alert_run s ticks ! i = alert_logic (fst (ticks ! i)) (snd (ticks ! i)) (state_before s ticks i)"
  by (simp add: alert_run_nth state_before_eq)

lemma status_stays_up:
  assumes "last_alert_status s = ''UP''"
    and "\<forall>j<length ticks. consecutive_failures (fst (alert_run s ticks ! j)) \<noteq> 3"
  shows "last_alert_status (state_after s ticks) = ''UP''"
  using assms
proof (induction ticks rule: rev_induct)
  case Nil
  then show ?case by (simp add: state_after_def)
next
  case (snoc t ticks)
  obtain fe_res be_res where t: "t = (fe_res, be_res)" by (cases t)
  have "\<forall>j<length ticks. consecutive_failures (fst (alert_run s ticks ! j)) \<noteq> 3"
  proof (intro allI impI)
    fix j assume "j < length ticks"
    with snoc.prems(2) [rule_format, of j] show "consecutive_failures (fst (alert_run s ticks ! j)) \<noteq> 3"
      by (simp add: t alert_run_snoc nth_append)
  qed
  with snoc have up: "last_alert_status (state_after s ticks) = ''UP''" by blast
  from snoc.prems(2) [rule_format, of "length ticks"]
  have "consecutive_failures (fst (alert_logic fe_res be_res (state_after s ticks))) \<noteq> 3"
    by (simp add: t alert_run_snoc nth_append)
  with up show ?case
    by (simp add: t state_after_snoc alert_logic_status alert_logic_counters split: if_splits)
qed

lemma first_third_failure_fires:
  assumes "last_alert_status s = ''UP''" and "i < length ticks"
    and "consecutive_failures (fst (alert_run s ticks ! i)) = 3"
    and "\<forall>j<i. consecutive_failures (fst (alert_run s ticks ! j)) \<noteq> 3"
  shows "last_alert_status (state_before s ticks i) = ''UP''"
proof -
  have "\<forall>j<length (take i ticks). consecutive_failures (fst (alert_run s (take i ticks) ! j)) \<noteq> 3"
  proof (intro allI impI)
    fix j assume j: "j < length (take i ticks)"
    then have "j < i" by simp
    moreover have "alert_run s (take i ticks) ! j = alert_run s ticks ! j"
      using j assms(2) by (simp add: alert_run_nth min_def)
    ultimately show "consecutive_failures (fst (alert_run s (take i ticks) ! j)) \<noteq> 3"
      using assms(4) by simp
  qed
  with assms(1) have "last_alert_status (state_after s (take i ticks)) = ''UP''"
    by (rule status_stays_up)
  with assms(2) show ?thesis by (simp add: state_before_eq)
qed

lemma failures_only_state:
  assumes "\<not> is_currently_up fe_res be_res"
    and "last_alert_status s = ''UP''" and "consecutive_failures s = 0"
  shows "consecutive_failures (state_after s (replicate n (fe_res, be_res))) = int n \<and>
         last_alert_status (state_after s (replicate n (fe_res, be_res))) =
           (if n < 3 then ''UP'' else ''DOWN'')"
proof (induction n)
  case 0
  with assms show ?case by (simp add: state_after_def)
next
  case (Suc n)
  have "replicate (Suc n) (fe_res, be_res) = replicate n (fe_res, be_res) @ [(fe_res, be_res)]"
    by (simp add: replicate_append_same)
  with Suc assms(1) show ?case
    by (simp add: state_after_snoc alert_logic_status alert_logic_counters)
qed

lemma failures_only_sent:
  assumes "\<not> is_currently_up fe_res be_res"
    and "last_alert_status s = ''UP''" and "consecutive_failures s = 0"
  shows "map snd (alert_run s (replicate n (fe_res, be_res))) =
           map (\<lambda>i. if i = 2 then [down_alert fe_res be_res] else []) [0..<n]"
proof (induction n)
  case 0
  show ?case by simp
next
  case (Suc n)
  have "replicate (Suc n) (fe_res, be_res) = replicate n (fe_res, be_res) @ [(fe_res, be_res)]"
    by (simp add: replicate_append_same)
  with Suc assms(1) failures_only_state [OF assms, of n] show ?case
    by (simp add: alert_run_snoc alert_logic_sent)
qed

lemma alert_logic_sent_cases:
  "snd (alert_logic fe_res be_res s) = [] \<or>
   snd (alert_logic fe_res be_res s) = [down_alert fe_res be_res] \<or>
   snd (alert_logic fe_res be_res s) = [RecoveryNotice]"
  by (simp add: alert_logic_sent)

lemma is_down_alert_down_alert [simp]: "is_down_alert (down_alert fe_res be_res)"
  by (simp add: down_alert_def)

lemma down_alert_fired_iff:
  "list_ex is_down_alert (snd (alert_logic fe_res be_res s)) \<longleftrightarrow>
     consecutive_failures (fst (alert_logic fe_res be_res s)) = 3 \<and> last_alert_status s = ''UP''"
  by (simp add: alert_logic_sent alert_logic_counters)

lemmas alert_eval = alert_logic_def recovery_edge_def falling_edge_def update_counters_def
  is_currently_up_def probe_up_def probe_down_def initial_state_def down_state_def state_before_def
  down_alert_def error_line_def Let_def

lemma upt_0_5: "[0..<5::nat] = [0, 1, 2, 3, 4]"
  by code_simp

lemma probe_up_facts:
  "\<not> is_currently_up probe_down probe_up" "\<not> is_currently_up probe_down probe_down"
  "\<not> is_currently_up probe_up probe_down" "is_currently_up probe_up probe_up"
  by (simp_all add: is_currently_up_def probe_up_def probe_down_def)

text \<open>
  Claim C1, as amended. Take any sequence of ticks run from a state with status \<open>UP\<close>
  and both counters 0. A down alert is sent in exactly the ticks that bring
  \<open>consecutive_failures\<close> to 3 from a state whose status is \<open>UP\<close>: a tick that sends it
  has brought the counter to 3 from status \<open>UP\<close>, sends exactly that one message and sets
  the status to \<open>DOWN\<close>, and every tick that brings the counter to 3 from status \<open>UP\<close>
  sends it; the first tick of the run that brings the counter to 3 is such a tick. A tick
  that leaves the counter above 3 (a fourth or later failure in a row) sends no down
  alert, and a tick with both endpoints up resets the counter to 0. Hence \<open>n\<close> failures
  in a row send the alert in the third tick and in no other, and the ticks fail, fail,
  success, fail, fail, fail send nothing but the alert of the last tick.
\<close>

theorem down_alert_on_third_consecutive_failure:
  assumes "last_alert_status s0 = ''UP''"
    and "consecutive_failures s0 = 0" and "consecutive_successes s0 = 0"
  shows "(\<forall>i<length ticks.
            (list_ex is_down_alert (snd (alert_run s0 ticks ! i)) \<longrightarrow>
               consecutive_failures (fst (alert_run s0 ticks ! i)) = 3 \<and>
               last_alert_status (state_before s0 ticks i) = ''UP'' \<and>
               last_alert_status (fst (alert_run s0 ticks ! i)) = ''DOWN'' \<and>
               snd (alert_run s0 ticks ! i) = [down_alert (fst (ticks ! i)) (snd (ticks ! i))]) \<and>
            (consecutive_failures (fst (alert_run s0 ticks ! i)) = 3 \<and>
             last_alert_status (state_before s0 ticks i) = ''UP'' \<longrightarrow>
               list_ex is_down_alert (snd (alert_run s0 ticks ! i))) \<and>
            (consecutive_failures (fst (alert_run s0 ticks ! i)) = 3 \<and>
             (\<forall>j<i. consecutive_failures (fst (alert_run s0 ticks ! j)) \<noteq> 3) \<longrightarrow>
               list_ex is_down_alert (snd (alert_run s0 ticks ! i))) \<and>
            (3 < consecutive_failures (fst (alert_run s0 ticks ! i)) \<longrightarrow>
               \<not> list_ex is_down_alert (snd (alert_run s0 ticks ! i))) \<and>
            (is_currently_up (fst (ticks ! i)) (snd (ticks ! i)) \<longrightarrow>
               consecutive_failures (fst (alert_run s0 ticks ! i)) = 0)) \<and>
         (\<not> is_currently_up fe_res be_res \<longrightarrow>
            map snd (alert_run s0 (replicate n (fe_res, be_res))) =
              map (\<lambda>i. if i = 2 then [down_alert fe_res be_res] else []) [0..<n]) \<and>
         (\<not> is_currently_up f1 b1 \<and> \<not> is_currently_up f2 b2 \<and> is_currently_up f3 b3 \<and>
          \<not> is_currently_up f4 b4 \<and> \<not> is_currently_up f5 b5 \<and> \<not> is_currently_up f6 b6 \<longrightarrow>
            map snd (alert_run s0 [(f1, b1), (f2, b2), (f3, b3), (f4, b4), (f5, b5), (f6, b6)]) =
              [[], [], [], [], [], [down_alert f6 b6]])"
proof (intro conjI allI impI)
  fix i assume i: "i < length ticks"
  let ?fe = "fst (ticks ! i)" and ?be = "snd (ticks ! i)"
  let ?pre = "state_before s0 ticks i"
  have step: "alert_run s0 ticks ! i = alert_logic ?fe ?be ?pre"
    using i by (rule alert_run_step)
  {
    assume "list_ex is_down_alert (snd (alert_run s0 ticks ! i))"
    then have fired: "consecutive_failures (fst (alert_logic ?fe ?be ?pre)) = 3 \<and> last_alert_status ?pre = ''UP''"
      by (simp add: step down_alert_fired_iff)
    then show "consecutive_failures (fst (alert_run s0 ticks ! i)) = 3"
      and "last_alert_status (state_before s0 ticks i) = ''UP''"
      by (simp_all add: step)
    from fired show "last_alert_status (fst (alert_run s0 ticks ! i)) = ''DOWN''"
      by (simp add: step alert_logic_status alert_logic_counters split: if_splits)
    from fired show "snd (alert_run s0 ticks ! i) = [down_alert ?fe ?be]"
      by (simp add: step alert_logic_sent alert_logic_counters split: if_splits)
  }
  {
    assume "consecutive_failures (fst (alert_run s0 ticks ! i)) = 3 \<and>
            last_alert_status (state_before s0 ticks i) = ''UP''"
    then show "list_ex is_down_alert (snd (alert_run s0 ticks ! i))"
      by (simp add: step down_alert_fired_iff)
  }
  {
    assume a: "consecutive_failures (fst (alert_run s0 ticks ! i)) = 3 \<and>
            (\<forall>j<i. consecutive_failures (fst (alert_run s0 ticks ! j)) \<noteq> 3)"
    with assms(1) i have "last_alert_status ?pre = ''UP''"
      by (intro first_third_failure_fires) simp_all
    with a show "list_ex is_down_alert (snd (alert_run s0 ticks ! i))"
      by (simp add: step down_alert_fired_iff)
  }
  {
    assume "3 < consecutive_failures (fst (alert_run s0 ticks ! i))"
    then show "\<not> list_ex is_down_alert (snd (alert_run s0 ticks ! i))"
      by (simp add: step down_alert_fired_iff)
  }
  {
    assume "is_currently_up ?fe ?be"
    then show "consecutive_failures (fst (alert_run s0 ticks ! i)) = 0"
      by (simp add: step alert_logic_counters)
  }
next
  assume "\<not> is_currently_up fe_res be_res"
  then show "map snd (alert_run s0 (replicate n (fe_res, be_res))) =
      map (\<lambda>i. if i = 2 then [down_alert fe_res be_res] else []) [0..<n]"
    using assms(1,2) by (rule failures_only_sent)
next
  assume "\<not> is_currently_up f1 b1 \<and> \<not> is_currently_up f2 b2 \<and> is_currently_up f3 b3 \<and>
          \<not> is_currently_up f4 b4 \<and> \<not> is_currently_up f5 b5 \<and> \<not> is_currently_up f6 b6"
  with assms show "map snd (alert_run s0 [(f1, b1), (f2, b2), (f3, b3), (f4, b4), (f5, b5), (f6, b6)]) =
              [[], [], [], [], [], [down_alert f6 b6]]"
    by (simp add: Let_def alert_logic_sent alert_logic_status alert_logic_counters)
qed

theorem down_alert_on_third_consecutive_failure_witness:
  "last_alert_status initial_state = ''UP'' \<and>
   consecutive_failures initial_state = 0 \<and> consecutive_successes initial_state = 0 \<and>
   map snd (alert_run initial_state
     [(probe_down, probe_up), (probe_down, probe_down), (probe_up, probe_up),
      (probe_up, probe_down), (probe_down, probe_up), (probe_down, probe_down)]) =
     [[], [], [], [], [], [down_alert probe_down probe_down]] \<and>
   map snd (alert_run initial_state (replicate 5 (probe_down, probe_up))) =
     [[], [], [down_alert probe_down probe_up], [], []] \<and>
   list_ex is_down_alert (snd (alert_run initial_state
     [(probe_down, probe_up), (probe_down, probe_down), (probe_up, probe_up),
      (probe_up, probe_down), (probe_down, probe_up), (probe_down, probe_down)] ! 5))"
proof -
  let ?ticks = "[(probe_down, probe_up), (probe_down, probe_down), (probe_up, probe_up),
      (probe_up, probe_down), (probe_down, probe_up), (probe_down, probe_down)]"
  have h: "last_alert_status initial_state = ''UP''" "consecutive_failures initial_state = 0"
    "consecutive_successes initial_state = 0"
    by (simp_all add: initial_state_def)
  note T = down_alert_on_third_consecutive_failure [OF h, where ticks = ?ticks and n = 5
      and fe_res = probe_down and be_res = probe_up
      and ?f1.0 = probe_down and ?b1.0 = probe_up and ?f2.0 = probe_down and ?b2.0 = probe_down
      and ?f3.0 = probe_up and ?b3.0 = probe_up and ?f4.0 = probe_up and ?b4.0 = probe_down
      and ?f5.0 = probe_down and ?b5.0 = probe_up and ?f6.0 = probe_down and ?b6.0 = probe_down]
  have six: "map snd (alert_run initial_state ?ticks) =
      [[], [], [], [], [], [down_alert probe_down probe_down]]"
    using T [THEN conjunct2, THEN conjunct2] probe_up_facts by blast
  from T [THEN conjunct2, THEN conjunct1] probe_up_facts
  have "map snd (alert_run initial_state (replicate 5 (probe_down, probe_up))) =
     map (\<lambda>i. if i = 2 then [down_alert probe_down probe_up] else []) [0..<5]"
    by blast
  then have five: "map snd (alert_run initial_state (replicate 5 (probe_down, probe_up))) =
     [[], [], [down_alert probe_down probe_up], [], []]"
    by (simp add: upt_0_5)
  have pre: "consecutive_failures (fst (alert_run initial_state ?ticks ! 5)) = 3 \<and>
      last_alert_status (state_before initial_state ?ticks 5) = ''UP''"
    by (simp add: alert_eval)
  have fired: "list_ex is_down_alert (snd (alert_run initial_state ?ticks ! 5))"
    by (rule T [THEN conjunct1, rule_format, of 5, THEN conjunct2, THEN conjunct1, rule_format])
      (simp, rule pre)
  from h six five fired show ?thesis by blast
qed

text \<open>
  Claim C1 as stated fails, because it has the alert in every tick that brings the
  counter to 3. From status \<open>UP\<close> and counters 0, the ticks fail, fail, fail, success,
  fail, fail, fail bring \<open>consecutive_failures\<close> to 3 a second time in the seventh tick;
  the status is \<open>DOWN\<close> since the third tick and one success does not recover, so the
  seventh tick sends nothing.
\<close>

theorem down_alert_not_sent_when_already_down:
  "last_alert_status initial_state = ''UP'' \<and>
   consecutive_failures initial_state = 0 \<and> consecutive_successes initial_state = 0 \<and>
   consecutive_failures (fst (alert_run initial_state
     [(probe_down, probe_down), (probe_down, probe_down), (probe_down, probe_down),
      (probe_up, probe_up),
      (probe_down, probe_down), (probe_down, probe_down), (probe_down, probe_down)] ! 6)) = 3 \<and>
   snd (alert_run initial_state
     [(probe_down, probe_down), (probe_down, probe_down), (probe_down, probe_down),
      (probe_up, probe_up),
      (probe_down, probe_down), (probe_down, probe_down), (probe_down, probe_down)] ! 6) = [] \<and>
   map snd (alert_run initial_state
     [(probe_down, probe_down), (probe_down, probe_down), (probe_down, probe_down),
      (probe_up, probe_up),
      (probe_down, probe_down), (probe_down, probe_down), (probe_down, probe_down)]) =
     [[], [], [down_alert probe_down probe_down], [], [], [], []]"
  by (simp add: alert_logic_def recovery_edge_def falling_edge_def update_counters_def
      is_currently_up_def probe_up_def probe_down_def initial_state_def Let_def)

lemma recovery_fired_iff:
  "list_ex is_recovery (snd (alert_logic fe_res be_res s)) \<longleftrightarrow>
     consecutive_successes (fst (alert_logic fe_res be_res s)) = 3 \<and> last_alert_status s = ''DOWN''"
  by (simp add: alert_logic_sent alert_logic_counters down_alert_def)

lemma status_stays_down:
  assumes "last_alert_status s = ''DOWN''"
    and "\<forall>j<length ticks. consecutive_successes (fst (alert_run s ticks ! j)) \<noteq> 3"
  shows "last_alert_status (state_after s ticks) = ''DOWN''"
  using assms
proof (induction ticks rule: rev_induct)
  case Nil
  then show ?case by (simp add: state_after_def)
next
  case (snoc t ticks)
  obtain fe_res be_res where t: "t = (fe_res, be_res)" by (cases t)
  have "\<forall>j<length ticks. consecutive_successes (fst (alert_run s ticks ! j)) \<noteq> 3"
  proof (intro allI impI)
    fix j assume "j < length ticks"
    with snoc.prems(2) [rule_format, of j] show "consecutive_successes (fst (alert_run s ticks ! j)) \<noteq> 3"
      by (simp add: t alert_run_snoc nth_append)
  qed
  with snoc have down: "last_alert_status (state_after s ticks) = ''DOWN''" by blast
  from snoc.prems(2) [rule_format, of "length ticks"]
  have "consecutive_successes (fst (alert_logic fe_res be_res (state_after s ticks))) \<noteq> 3"
    by (simp add: t alert_run_snoc nth_append)
  with down show ?case
    by (simp add: t state_after_snoc alert_logic_status alert_logic_counters split: if_splits)
qed

lemma first_third_success_recovers:
  assumes "last_alert_status s = ''DOWN''" and "i < length ticks"
    and "\<forall>j<i. consecutive_successes (fst (alert_run s ticks ! j)) \<noteq> 3"
  shows "last_alert_status (state_before s ticks i) = ''DOWN''"
proof -
  have "\<forall>j<length (take i ticks). consecutive_successes (fst (alert_run s (take i ticks) ! j)) \<noteq> 3"
  proof (intro allI impI)
    fix j assume j: "j < length (take i ticks)"
    then have "j < i" by simp
    moreover have "alert_run s (take i ticks) ! j = alert_run s ticks ! j"
      using j assms(2) by (simp add: alert_run_nth min_def)
    ultimately show "consecutive_successes (fst (alert_run s (take i ticks) ! j)) \<noteq> 3"
      using assms(3) by simp
  qed
  with assms(1) have "last_alert_status (state_after s (take i ticks)) = ''DOWN''"
    by (rule status_stays_down)
  with assms(2) show ?thesis by (simp add: state_before_eq)
qed

lemma successes_only_state:
  assumes "is_currently_up fe_res be_res"
    and "last_alert_status s = ''DOWN''" and "consecutive_successes s = 0"
  shows "consecutive_successes (state_after s (replicate n (fe_res, be_res))) = int n \<and>
         last_alert_status (state_after s (replicate n (fe_res, be_res))) =
           (if n < 3 then ''DOWN'' else ''UP'')"
proof (induction n)
  case 0
  with assms show ?case by (simp add: state_after_def)
next
  case (Suc n)
  have "replicate (Suc n) (fe_res, be_res) = replicate n (fe_res, be_res) @ [(fe_res, be_res)]"
    by (simp add: replicate_append_same)
  with Suc assms(1) show ?case
    by (simp add: state_after_snoc alert_logic_status alert_logic_counters)
qed

lemma successes_only_sent:
  assumes "is_currently_up fe_res be_res"
    and "last_alert_status s = ''DOWN''" and "consecutive_successes s = 0"
  shows "map snd (alert_run s (replicate n (fe_res, be_res))) =
           map (\<lambda>i. if i = 2 then [RecoveryNotice] else []) [0..<n]"
proof (induction n)
  case 0
  show ?case by simp
next
  case (Suc n)
  have "replicate (Suc n) (fe_res, be_res) = replicate n (fe_res, be_res) @ [(fe_res, be_res)]"
    by (simp add: replicate_append_same)
  with Suc assms(1) successes_only_state [OF assms, of n] show ?case
    by (simp add: alert_run_snoc alert_logic_sent)
qed

text \<open>
  Claim C2, as amended. Take any sequence of ticks run from a state with status \<open>DOWN\<close>.
  A recovery notice is sent in exactly the ticks that bring \<open>consecutive_successes\<close> to 3
  from a state whose status is \<open>DOWN\<close>: a tick that sends it has brought the counter to 3
  from status \<open>DOWN\<close>, sends exactly that one message and sets the status to \<open>UP\<close>, and
  every tick that brings the counter to 3 from status \<open>DOWN\<close> sends it; the first tick of
  the run that brings the counter to 3 is such a tick. From a state with status \<open>DOWN\<close>
  and \<open>consecutive_successes\<close> 0, \<open>n\<close> successes in a row send the notice in the third
  tick and in no other, and the ticks success, success, failure send nothing and leave
  the status \<open>DOWN\<close>.
\<close>

theorem recovery_on_third_consecutive_success:
  assumes "last_alert_status s0 = ''DOWN''"
  shows "(\<forall>i<length ticks.
            (list_ex is_recovery (snd (alert_run s0 ticks ! i)) \<longrightarrow>
               consecutive_successes (fst (alert_run s0 ticks ! i)) = 3 \<and>
               last_alert_status (state_before s0 ticks i) = ''DOWN'' \<and>
               last_alert_status (fst (alert_run s0 ticks ! i)) = ''UP'' \<and>
               snd (alert_run s0 ticks ! i) = [RecoveryNotice]) \<and>
            (consecutive_successes (fst (alert_run s0 ticks ! i)) = 3 \<and>
             last_alert_status (state_before s0 ticks i) = ''DOWN'' \<longrightarrow>
               list_ex is_recovery (snd (alert_run s0 ticks ! i))) \<and>
            (consecutive_successes (fst (alert_run s0 ticks ! i)) = 3 \<and>
             (\<forall>j<i. consecutive_successes (fst (alert_run s0 ticks ! j)) \<noteq> 3) \<longrightarrow>
               list_ex is_recovery (snd (alert_run s0 ticks ! i)))) \<and>
         (consecutive_successes s0 = 0 \<and> is_currently_up fe_res be_res \<longrightarrow>
            map snd (alert_run s0 (replicate n (fe_res, be_res))) =
              map (\<lambda>i. if i = 2 then [RecoveryNotice] else []) [0..<n]) \<and>
         (consecutive_successes s0 = 0 \<and>
          is_currently_up f1 b1 \<and> is_currently_up f2 b2 \<and> \<not> is_currently_up f3 b3 \<longrightarrow>
            map snd (alert_run s0 [(f1, b1), (f2, b2), (f3, b3)]) = [[], [], []] \<and>
            map (\<lambda>r. last_alert_status (fst r)) (alert_run s0 [(f1, b1), (f2, b2), (f3, b3)]) =
              [''DOWN'', ''DOWN'', ''DOWN''])"
proof (intro conjI allI impI)
  fix i assume i: "i < length ticks"
  let ?fe = "fst (ticks ! i)" and ?be = "snd (ticks ! i)"
  let ?pre = "state_before s0 ticks i"
  have step: "alert_run s0 ticks ! i = alert_logic ?fe ?be ?pre"
    using i by (rule alert_run_step)
  {
    assume "list_ex is_recovery (snd (alert_run s0 ticks ! i))"
    then have fired: "consecutive_successes (fst (alert_logic ?fe ?be ?pre)) = 3 \<and> last_alert_status ?pre = ''DOWN''"
      by (simp add: step recovery_fired_iff)
    then show "consecutive_successes (fst (alert_run s0 ticks ! i)) = 3"
      and "last_alert_status (state_before s0 ticks i) = ''DOWN''"
      by (simp_all add: step)
    from fired show "last_alert_status (fst (alert_run s0 ticks ! i)) = ''UP''"
      by (simp add: step alert_logic_status alert_logic_counters split: if_splits)
    from fired show "snd (alert_run s0 ticks ! i) = [RecoveryNotice]"
      by (simp add: step alert_logic_sent alert_logic_counters split: if_splits)
  }
  {
    assume "consecutive_successes (fst (alert_run s0 ticks ! i)) = 3 \<and>
            last_alert_status (state_before s0 ticks i) = ''DOWN''"
    then show "list_ex is_recovery (snd (alert_run s0 ticks ! i))"
      by (simp add: step recovery_fired_iff)
  }
  {
    assume a: "consecutive_successes (fst (alert_run s0 ticks ! i)) = 3 \<and>
            (\<forall>j<i. consecutive_successes (fst (alert_run s0 ticks ! j)) \<noteq> 3)"
    with assms i have "last_alert_status ?pre = ''DOWN''"
      by (intro first_third_success_recovers) simp_all
    with a show "list_ex is_recovery (snd (alert_run s0 ticks ! i))"
      by (simp add: step recovery_fired_iff)
  }
next
  assume "consecutive_successes s0 = 0 \<and> is_currently_up fe_res be_res"
  with assms show "map snd (alert_run s0 (replicate n (fe_res, be_res))) =
      map (\<lambda>i. if i = 2 then [RecoveryNotice] else []) [0..<n]"
    by (intro successes_only_sent) simp_all
next
  assume a: "consecutive_successes s0 = 0 \<and>
          is_currently_up f1 b1 \<and> is_currently_up f2 b2 \<and> \<not> is_currently_up f3 b3"
  with assms show "map snd (alert_run s0 [(f1, b1), (f2, b2), (f3, b3)]) = [[], [], []]"
    by (simp add: Let_def alert_logic_sent alert_logic_status alert_logic_counters)
  from a assms show "map (\<lambda>r. last_alert_status (fst r)) (alert_run s0 [(f1, b1), (f2, b2), (f3, b3)]) =
              [''DOWN'', ''DOWN'', ''DOWN'']"
    by (simp add: Let_def alert_logic_sent alert_logic_status alert_logic_counters)
qed

theorem recovery_on_third_consecutive_success_witness:
  "last_alert_status down_state = ''DOWN'' \<and> consecutive_successes down_state = 0 \<and>
   map snd (alert_run down_state [(probe_up, probe_up), (probe_up, probe_up), (probe_down, probe_up)]) =
     [[], [], []] \<and>
   map (\<lambda>r. last_alert_status (fst r))
     (alert_run down_state [(probe_up, probe_up), (probe_up, probe_up), (probe_down, probe_up)]) =
     [''DOWN'', ''DOWN'', ''DOWN''] \<and>
   map snd (alert_run down_state (replicate 5 (probe_up, probe_up))) =
     [[], [], [RecoveryNotice], [], []] \<and>
   list_ex is_recovery (snd (alert_run down_state
     [(probe_up, probe_up), (probe_up, probe_up), (probe_up, probe_up)] ! 2))"
proof -
  let ?ticks = "[(probe_up, probe_up), (probe_up, probe_up), (probe_up, probe_up)]"
  have h: "last_alert_status down_state = ''DOWN''"
    by (simp add: down_state_def)
  have z: "consecutive_successes down_state = 0"
    by (simp add: down_state_def)
  note T = recovery_on_third_consecutive_success [OF h, where ticks = ?ticks and n = 5
      and fe_res = probe_up and be_res = probe_up
      and ?f1.0 = probe_up and ?b1.0 = probe_up and ?f2.0 = probe_up and ?b2.0 = probe_up
      and ?f3.0 = probe_down and ?b3.0 = probe_up]
  have ssf: "map snd (alert_run down_state [(probe_up, probe_up), (probe_up, probe_up), (probe_down, probe_up)]) =
       [[], [], []] \<and>
     map (\<lambda>r. last_alert_status (fst r))
       (alert_run down_state [(probe_up, probe_up), (probe_up, probe_up), (probe_down, probe_up)]) =
       [''DOWN'', ''DOWN'', ''DOWN'']"
    using T [THEN conjunct2, THEN conjunct2] z probe_up_facts by blast
  from T [THEN conjunct2, THEN conjunct1] z probe_up_facts
  have "map snd (alert_run down_state (replicate 5 (probe_up, probe_up))) =
     map (\<lambda>i. if i = 2 then [RecoveryNotice] else []) [0..<5]"
    by blast
  then have five: "map snd (alert_run down_state (replicate 5 (probe_up, probe_up))) =
     [[], [], [RecoveryNotice], [], []]"
    by (simp add: upt_0_5)
  have pre: "consecutive_successes (fst (alert_run down_state ?ticks ! 2)) = 3 \<and>
      last_alert_status (state_before down_state ?ticks 2) = ''DOWN''"
    by (simp add: alert_eval)
  have fired: "list_ex is_recovery (snd (alert_run down_state ?ticks ! 2))"
    by (rule T [THEN conjunct1, rule_format, of 2, THEN conjunct2, THEN conjunct1, rule_format])
      (simp, rule pre)
  from h z ssf five fired show ?thesis by blast
qed

text \<open>
  Claim C2 as stated fails. The ticks fail, fail, fail, success lead from the initial
  state to status \<open>DOWN\<close> with one success counted; from that state the ticks success,
  success, failure recover in their second tick. And from \<open>down_state\<close> the ticks
  success, success, success, failure, success, success, success bring
  \<open>consecutive_successes\<close> to 3 a second time in the seventh tick, which sends nothing
  because the status is \<open>UP\<close> by then.
\<close>

theorem recovery_after_counted_success:
  "fst (last (alert_run initial_state
     [(probe_down, probe_down), (probe_down, probe_down), (probe_down, probe_down),
      (probe_up, probe_up)])) = down_one_success \<and>
   last_alert_status down_one_success = ''DOWN'' \<and>
   map snd (alert_run down_one_success
     [(probe_up, probe_up), (probe_up, probe_up), (probe_down, probe_up)]) =
     [[], [RecoveryNotice], []] \<and>
   last_alert_status (fst (alert_run down_one_success
     [(probe_up, probe_up), (probe_up, probe_up), (probe_down, probe_up)] ! 1)) = ''UP'' \<and>
   last_alert_status (fst (last (alert_run down_one_success
     [(probe_up, probe_up), (probe_up, probe_up), (probe_down, probe_up)]))) = ''UP'' \<and>
   last_alert_status down_state = ''DOWN'' \<and>
   consecutive_successes (fst (alert_run down_state
     [(probe_up, probe_up), (probe_up, probe_up), (probe_up, probe_up), (probe_down, probe_up),
      (probe_up, probe_up), (probe_up, probe_up), (probe_up, probe_up)] ! 6)) = 3 \<and>
   snd (alert_run down_state
     [(probe_up, probe_up), (probe_up, probe_up), (probe_up, probe_up), (probe_down, probe_up),
      (probe_up, probe_up), (probe_up, probe_up), (probe_up, probe_up)] ! 6) = []"
  by (simp add: alert_logic_def recovery_edge_def falling_edge_def update_counters_def
      is_currently_up_def probe_up_def probe_down_def initial_state_def down_state_def
      down_one_success_def Let_def)

lemma alert_run_elements:
  "r \<in> set (alert_run s ticks) \<Longrightarrow> \<exists>fe_res be_res s'. r = alert_logic fe_res be_res s'"
  by (induction s ticks rule: alert_run.induct) (auto simp: Let_def)

lemma run_daily_summary_keeps_alert_fields:
  "consecutive_failures (fst (snd (run_daily_summary decode encode loads render retention_days now now_p flushed s fs))) =
     consecutive_failures s"
  "consecutive_successes (fst (snd (run_daily_summary decode encode loads render retention_days now now_p flushed s fs))) =
     consecutive_successes s"
  "last_alert_status (fst (snd (run_daily_summary decode encode loads render retention_days now now_p flushed s fs))) =
     last_alert_status s"
  by (simp_all add: run_daily_summary_def Let_def split: sum.splits prod.splits)

lemma tick_state:
  "fst (tick decode encode loads dumps render retention_days inp (s, fs)) =
     (if hour (clock_main inp) = 0 \<and> 5 \<le> minute (clock_main inp)
      then fst (snd (run_daily_summary decode encode loads render retention_days
             (clock_summary inp) (clock_prune inp) (prune_flushed inp)
             (fst (alert_logic (fe_probe inp) (be_probe inp) s))
             (append_sample encode dumps
                \<lparr>frontend = fe_probe inp, backend = be_probe inp, resources = metrics inp\<rparr> fs)))
      else fst (alert_logic (fe_probe inp) (be_probe inp) s))"
  by (simp add: tick_def Let_def split: prod.splits option.splits)

lemma tick_counters:
  "consecutive_failures (fst (tick decode encode loads dumps render retention_days inp (s, fs))) =
     consecutive_failures (fst (alert_logic (fe_probe inp) (be_probe inp) s))"
  "consecutive_successes (fst (tick decode encode loads dumps render retention_days inp (s, fs))) =
     consecutive_successes (fst (alert_logic (fe_probe inp) (be_probe inp) s))"
  by (simp_all add: tick_state run_daily_summary_keeps_alert_fields)

text \<open>
  Claim C8. Whatever the state before a tick (in particular one whose counters are not
  negative), after the tick's update one of \<open>consecutive_failures\<close> and
  \<open>consecutive_successes\<close> is zero, because the branch taken resets the other counter;
  neither counter becomes negative. The same holds for every state of a run of ticks
  and for the state at the end of a whole iteration of the loop, since the daily summary
  does not touch the counters.
\<close>

theorem counters_never_both_nonzero:
  assumes "0 \<le> consecutive_failures s" and "0 \<le> consecutive_successes s"
  shows "\<not> (consecutive_failures (fst (alert_logic fe_res be_res s)) \<noteq> 0 \<and>
            consecutive_successes (fst (alert_logic fe_res be_res s)) \<noteq> 0) \<and>
         0 \<le> consecutive_failures (fst (alert_logic fe_res be_res s)) \<and>
         0 \<le> consecutive_successes (fst (alert_logic fe_res be_res s)) \<and>
         (\<forall>r\<in>set (alert_run s ticks).
            \<not> (consecutive_failures (fst r) \<noteq> 0 \<and> consecutive_successes (fst r) \<noteq> 0)) \<and>
         \<not> (consecutive_failures (fst (tick decode encode loads dumps render retention_days inp (s, fs))) \<noteq> 0 \<and>
            consecutive_successes (fst (tick decode encode loads dumps render retention_days inp (s, fs))) \<noteq> 0)"
proof (intro conjI ballI)
  show "\<not> (consecutive_failures (fst (alert_logic fe_res be_res s)) \<noteq> 0 \<and>
            consecutive_successes (fst (alert_logic fe_res be_res s)) \<noteq> 0)"
    by (simp add: alert_logic_counters)
  show "0 \<le> consecutive_failures (fst (alert_logic fe_res be_res s))"
    using assms(1) by (simp add: alert_logic_counters)
  show "0 \<le> consecutive_successes (fst (alert_logic fe_res be_res s))"
    using assms(2) by (simp add: alert_logic_counters)
  show "\<not> (consecutive_failures (fst (tick decode encode loads dumps render retention_days inp (s, fs))) \<noteq> 0 \<and>
            consecutive_successes (fst (tick decode encode loads dumps render retention_days inp (s, fs))) \<noteq> 0)"
    by (simp add: tick_counters alert_logic_counters)
next
  fix r assume "r \<in> set (alert_run s ticks)"
  then obtain fe be s' where "r = alert_logic fe be s'"
    using alert_run_elements by blast
  then show "\<not> (consecutive_failures (fst r) \<noteq> 0 \<and> consecutive_successes (fst r) \<noteq> 0)"
    by (simp add: alert_logic_counters)
qed

theorem counters_never_both_nonzero_witness:
  "0 \<le> consecutive_failures initial_state \<and> 0 \<le> consecutive_successes initial_state \<and>
   consecutive_failures (fst (alert_logic probe_down probe_up initial_state)) = 1 \<and>
   consecutive_successes (fst (alert_logic probe_down probe_up initial_state)) = 0 \<and>
   \<not> (consecutive_failures (fst (alert_logic probe_down probe_up initial_state)) \<noteq> 0 \<and>
      consecutive_successes (fst (alert_logic probe_down probe_up initial_state)) \<noteq> 0)"
proof -
  have h: "0 \<le> consecutive_failures initial_state" "0 \<le> consecutive_successes initial_state"
    by (simp_all add: initial_state_def)
  have v: "consecutive_failures (fst (alert_logic probe_down probe_up initial_state)) = 1"
    "consecutive_successes (fst (alert_logic probe_down probe_up initial_state)) = 0"
    by (simp_all add: alert_logic_counters probe_up_facts initial_state_def)
  from counters_never_both_nonzero [OF h, THEN conjunct1, of probe_down probe_up] h v
  show ?thesis by blast
qed

section \<open>Properties of reading in text mode\<close>

lemma CR_neq_LF [simp]: "CR \<noteq> LF" "LF \<noteq> CR"
  by (simp_all add: CR_def LF_def)

lemma universal_newlines_id:
  "CR \<notin> set t \<Longrightarrow> universal_newlines t = t"
  by (induction t rule: universal_newlines.induct) auto

lemma split_lines_line:
  "LF \<notin> set t \<Longrightarrow> split_lines cur (t @ LF # rest) = (cur @ t @ [LF]) # split_lines [] rest"
  by (induction t arbitrary: cur) auto

lemma proper_line_split:
  assumes "proper_line l"
  obtains t where "l = t @ [LF]" and "LF \<notin> set t" and "CR \<notin> set t"
proof -
  from assms have "l = butlast l @ [LF]" "LF \<notin> set (butlast l)" "CR \<notin> set (butlast l)"
    using append_butlast_last_id [of l] by (simp_all add: proper_line_def)
  then show thesis by (rule that)
qed

lemma split_lines_concat:
  "\<forall>l\<in>set ls. proper_line l \<Longrightarrow> split_lines [] (concat ls) = ls"
proof (induction ls)
  case Nil
  show ?case by simp
next
  case (Cons l ls)
  then have "proper_line l" by simp
  then obtain t where t: "l = t @ [LF]" "LF \<notin> set t" by (rule proper_line_split)
  have "split_lines [] (t @ LF # concat ls) = ([] @ t @ [LF]) # split_lines [] (concat ls)"
    using t(2) by (rule split_lines_line)
  with Cons t(1) show ?case by simp
qed

lemma no_CR_proper_lines:
  "\<forall>l\<in>set ls. proper_line l \<Longrightarrow> CR \<notin> set (concat ls)"
proof (induction ls)
  case Nil
  show ?case by simp
next
  case (Cons l ls)
  then have "proper_line l" by simp
  then obtain t where "l = t @ [LF]" "CR \<notin> set t" by (rule proper_line_split)
  with Cons show ?case by simp
qed

lemma read_lines_concat:
  assumes "decode bytes = Some (concat ls)" and "\<forall>l\<in>set ls. proper_line l"
  shows "read_lines decode bytes = Some ls"
  using assms(1) universal_newlines_id [OF no_CR_proper_lines [OF assms(2)]]
    split_lines_concat [OF assms(2)]
  by (simp add: read_lines_def)

lemma proper_sample_line:
  "LF \<notin> set (dumps (json_of_sample smp)) \<Longrightarrow> CR \<notin> set (dumps (json_of_sample smp)) \<Longrightarrow>
     proper_line (sample_line dumps smp)"
  by (simp add: proper_line_def sample_line_def)

lemma contents_append_samples:
  "contents (fold (append_sample encode dumps) smps fs) SamplesFile =
     contents fs SamplesFile @ concat (map (\<lambda>smp. encode (sample_line dumps smp)) smps)"
  by (induction smps arbitrary: fs) (simp_all add: append_sample_def contents_def)

lemma samples_file_stays:
  "fs SamplesFile \<noteq> None \<Longrightarrow> fold (append_sample encode dumps) smps fs SamplesFile \<noteq> None"
  by (induction smps arbitrary: fs) (simp_all add: append_sample_def)

lemma samples_file_appended:
  assumes "smps \<noteq> []"
  shows "fold (append_sample encode dumps) smps fs SamplesFile =
           Some (contents (fold (append_sample encode dumps) smps fs) SamplesFile)"
proof -
  from assms obtain smp rest where c: "smps = smp # rest" by (cases smps) auto
  have "append_sample encode dumps smp fs SamplesFile \<noteq> None"
    by (simp add: append_sample_def)
  then have "fold (append_sample encode dumps) rest (append_sample encode dumps smp fs) SamplesFile \<noteq> None"
    by (rule samples_file_stays)
  then show ?thesis unfolding c by (auto simp add: contents_def)
qed

section \<open>Properties of the daily summary scan\<close>

lemma scan_line_unrelated:
  "unrelated_line loads y l \<Longrightarrow> scan_line loads y l a = a"
  by (auto simp: unrelated_line_def scan_line_def split: option.splits sum.splits)

lemma fold_scan_filter:
  "fold (scan_line loads y) ls a =
     fold (scan_line loads y) (filter (\<lambda>l. \<not> unrelated_line loads y l) ls) a"
  by (induction ls arbitrary: a) (simp_all add: scan_line_unrelated)

lemma fold_scan_shuffles:
  assumes "\<forall>l\<in>set junk. unrelated_line loads y l" and "stored \<in> shuffles ls junk"
  shows "fold (scan_line loads y) stored a = fold (scan_line loads y) ls a"
proof -
  let ?P = "\<lambda>l. \<not> unrelated_line loads y l"
  have "filter ?P junk = []" using assms(1) by (simp add: filter_empty_conv)
  moreover have "filter ?P stored \<in> filter ?P ` shuffles ls junk"
    using assms(2) by (rule imageI)
  ultimately have "filter ?P stored = filter ?P ls"
    by (simp add: filter_shuffles)
  then show ?thesis
    using fold_scan_filter [of loads y stored a] fold_scan_filter [of loads y ls a] by simp
qed

text \<open>Reading the fields of a record that the monitor wrote.\<close>

lemma record_date_sample:
  "record_date (json_of_sample smp) = Inr (JStr (sample_date smp))"
  by (simp add: record_date_def json_of_sample_def json_of_resources_def sample_date_def)

lemma status_is_up_sample:
  "status_is_up (json_of_sample smp) ''frontend'' = Inr (probe_is_up (frontend smp))"
  "status_is_up (json_of_sample smp) ''backend'' = Inr (probe_is_up (backend smp))"
  by (simp_all add: status_is_up_def getitem2_def json_of_sample_def json_of_probe_def probe_is_up_def)

lemma getitem2_sample:
  "getitem2 (json_of_sample smp) ''frontend'' ''latency_ms'' = Inr (JNum (of_int (latency_ms (frontend smp))))"
  "getitem2 (json_of_sample smp) ''backend'' ''latency_ms'' = Inr (JNum (of_int (latency_ms (backend smp))))"
  "getitem2 (json_of_sample smp) ''resources'' ''mem_percent'' = Inr (JNum (mem_percent (resources smp)))"
  "getitem2 (json_of_sample smp) ''resources'' ''disk_percent'' = Inr (JNum (disk_percent (resources smp)))"
  by (simp_all add: getitem2_def json_of_sample_def json_of_probe_def json_of_resources_def)

lemma summarise_snoc:
  "summarise (smps @ [smp]) =
     count_resources (json_of_sample smp)
       (let a1 = (summarise smps)\<lparr>total_samples := total_samples (summarise smps) + 1\<rparr>;
            a2 = (if probe_is_up (frontend smp)
                  then a1\<lparr>fe_up_count := fe_up_count a1 + 1,
                          fe_latencies := fe_latencies a1 @ [JNum (of_int (latency_ms (frontend smp)))]\<rparr>
                  else a1);
            a3 = (if probe_is_up (backend smp)
                  then a2\<lparr>be_up_count := be_up_count a2 + 1,
                          be_latencies := be_latencies a2 @ [JNum (of_int (latency_ms (backend smp)))]\<rparr>
                  else a2)
        in if probe_is_up (frontend smp) \<and> probe_is_up (backend smp)
           then a3\<lparr>both_up_count := both_up_count a3 + 1\<rparr> else a3)"
  by (simp add: summarise_def count_resources_def getitem2_sample Let_def)

lemma scan_line_sample:
  assumes "loads (sample_line dumps smp) = Some (json_of_sample smp)"
  shows "scan_line loads y (sample_line dumps smp) (summarise smps) =
           (if sample_date smp = y then summarise (smps @ [smp]) else summarise smps)"
  using assms
  by (simp add: scan_line_def record_date_sample status_is_up_sample count_frontend_def
      count_backend_def getitem2_sample summarise_snoc Let_def)

lemma fold_scan_samples:
  assumes "\<forall>smp\<in>set smps. loads (sample_line dumps smp) = Some (json_of_sample smp)"
  shows "fold (scan_line loads y) (map (sample_line dumps) smps) (summarise pre) =
           summarise (pre @ filter (\<lambda>smp. sample_date smp = y) smps)"
  using assms
proof (induction smps arbitrary: pre)
  case Nil
  show ?case by simp
next
  case (Cons smp smps)
  then have "loads (sample_line dumps smp) = Some (json_of_sample smp)" by simp
  then have "scan_line loads y (sample_line dumps smp) (summarise pre) =
           (if sample_date smp = y then summarise (pre @ [smp]) else summarise pre)"
    by (rule scan_line_sample)
  with Cons show ?case by simp
qed

lemma summarise_Nil: "summarise [] = empty_acc"
  by (simp add: summarise_def empty_acc_def)

lemma scan_lines_samples:
  assumes "\<forall>smp\<in>set smps. loads (sample_line dumps smp) = Some (json_of_sample smp)"
  shows "scan_lines loads y (map (sample_line dumps) smps) =
           summarise (filter (\<lambda>smp. sample_date smp = y) smps)"
  using fold_scan_samples [OF assms, of y "[]"] by (simp add: summarise_Nil scan_lines_def)

text \<open>
  The round trip on files that decode. Append any list of sample records to a store that
  does not exist yet, with a serialiser that writes no line end inside a record, a parser
  that gives each written record back and a codec that decodes the written file to the
  written text. For every target date the scan of the store yields exactly what the
  records of that date yield, taken in the order in which they were appended: the counts
  and the series of \<open>summarise\<close> over the sublist of the records whose timestamp starts
  with the date. The result is the same for every file that decodes and whose lines are
  the written lines with further lines anywhere between them that are unrelated to the
  date (lines that do not parse, that have no timestamp, or that carry another date).
\<close>

lemma read_for_date_round_trip:
  assumes "\<forall>smp\<in>set smps. loads (sample_line dumps smp) = Some (json_of_sample smp)"
    and "\<forall>smp\<in>set smps. LF \<notin> set (dumps (json_of_sample smp)) \<and>
           CR \<notin> set (dumps (json_of_sample smp))"
    and "fs SamplesFile = None"
    and "decode (contents (fold (append_sample encode dumps) smps fs) SamplesFile) =
           Some (concat (map (sample_line dumps) smps))"
    and "\<forall>l\<in>set junk. unrelated_line loads y l"
    and "stored \<in> shuffles (map (sample_line dumps) smps) junk"
    and "read_lines decode bytes = Some stored"
  shows "scan_samples decode loads y (fold (append_sample encode dumps) smps fs SamplesFile) =
           Inr (summarise (filter (\<lambda>smp. sample_date smp = y) smps)) \<and>
         scan_samples decode loads y (Some bytes) =
           Inr (summarise (filter (\<lambda>smp. sample_date smp = y) smps))"
proof
  note plain = scan_lines_samples [OF assms(1), of y]
  show "scan_samples decode loads y (fold (append_sample encode dumps) smps fs SamplesFile) =
           Inr (summarise (filter (\<lambda>smp. sample_date smp = y) smps))"
  proof (cases "smps = []")
    case True
    with assms(3) show ?thesis by (simp add: scan_samples_def summarise_Nil)
  next
    case False
    have "\<forall>l\<in>set (map (sample_line dumps) smps). proper_line l"
      using assms(2) by (simp add: proper_sample_line)
    with assms(4)
    have "read_lines decode (contents (fold (append_sample encode dumps) smps fs) SamplesFile) =
        Some (map (sample_line dumps) smps)"
      by (rule read_lines_concat)
    then show ?thesis
      by (simp add: samples_file_appended [OF False] scan_samples_def plain)
  qed
  have "fold (scan_line loads y) stored empty_acc =
      fold (scan_line loads y) (map (sample_line dumps) smps) empty_acc"
    using assms(5,6) by (rule fold_scan_shuffles)
  then have "scan_lines loads y stored = scan_lines loads y (map (sample_line dumps) smps)"
    by (simp add: scan_lines_def)
  with assms(7) show "scan_samples decode loads y (Some bytes) =
           Inr (summarise (filter (\<lambda>smp. sample_date smp = y) smps))"
    by (simp add: scan_samples_def plain)
qed

text \<open>
  Claim C10. The scan does not treat a line as a whole. For a line that parses, carries
  the target date and has both probes with status \<^verbatim>\<open>UP\<close> and a latency, but has no
  \<^verbatim>\<open>mem_percent\<close> among its resources, the scan has already counted the sample, both
  probes and both latencies when the lookup fails: scanning only this line reports one
  sample and one latency per probe, and no memory and no disk value, and so does the
  scan of a file that reads as this one line.
\<close>

theorem scan_counts_partial_record:
  assumes "loads line = Some s"
    and "record_date s = Inr (JStr y)"
    and "status_is_up s ''frontend'' = Inr True"
    and "getitem2 s ''frontend'' ''latency_ms'' = Inr fe_ms"
    and "status_is_up s ''backend'' = Inr True"
    and "getitem2 s ''backend'' ''latency_ms'' = Inr be_ms"
    and "getitem2 s ''resources'' ''mem_percent'' = Inl e"
  shows "scan_line loads y line a =
           a\<lparr>total_samples := total_samples a + 1,
             fe_up_count := fe_up_count a + 1, fe_latencies := fe_latencies a @ [fe_ms],
             be_up_count := be_up_count a + 1, be_latencies := be_latencies a @ [be_ms],
             both_up_count := both_up_count a + 1\<rparr> \<and>
         total_samples (scan_lines loads y [line]) = 1 \<and>
         fe_latencies (scan_lines loads y [line]) = [fe_ms] \<and>
         be_latencies (scan_lines loads y [line]) = [be_ms] \<and>
         mem_percents (scan_lines loads y [line]) = [] \<and>
         disk_percents (scan_lines loads y [line]) = [] \<and>
         (read_lines decode bytes = Some [line] \<longrightarrow>
            scan_samples decode loads y (Some bytes) =
              Inr \<lparr>fe_latencies = [fe_ms], be_latencies = [be_ms], mem_percents = [],
                   disk_percents = [], total_samples = 1, fe_up_count = 1, be_up_count = 1,
                   both_up_count = 1\<rparr>)"
proof -
  have step: "scan_line loads y line a =
           a\<lparr>total_samples := total_samples a + 1,
             fe_up_count := fe_up_count a + 1, fe_latencies := fe_latencies a @ [fe_ms],
             be_up_count := be_up_count a + 1, be_latencies := be_latencies a @ [be_ms],
             both_up_count := both_up_count a + 1\<rparr>" for a
    using assms
    by (simp add: scan_line_def count_frontend_def count_backend_def count_resources_def Let_def)
  show ?thesis
    by (simp add: scan_samples_def scan_lines_def step empty_acc_def)
qed

text \<open>
  Claim C7. When the scan finds no sample of yesterday's date, \<^verbatim>\<open>run_daily_summary\<close>
  sends nothing, changes no file, raises nothing and sets \<open>last_summary_date\<close> to
  yesterday's date; called again with that state at a time with the same yesterday, on
  any files, it returns at once, again sending nothing.
\<close>

theorem no_samples_advances_summary_date:
  assumes "date_minus_days (today now) 1 = Inr yd"
    and "scan_samples decode loads (strftime_ymd yd) (fs SamplesFile) = Inr a"
    and "total_samples a = 0"
  shows "run_daily_summary decode encode loads render retention_days now now_p flushed s fs =
           (None, s\<lparr>last_summary_date := strftime_ymd yd\<rparr>, [], fs) \<and>
         (date_minus_days (today now') 1 = Inr yd \<longrightarrow>
            run_daily_summary decode' encode' loads' render' retention_days' now' now_p' flushed'
              (s\<lparr>last_summary_date := strftime_ymd yd\<rparr>) fs' =
              (None, s\<lparr>last_summary_date := strftime_ymd yd\<rparr>, [], fs'))"
  using assms by (auto simp add: run_daily_summary_def Let_def)

section \<open>The scan on concrete files\<close>

lemma dumps_written:
  "table_dumps (json_of_sample sample_a) = ''A''"
  "table_dumps (json_of_sample sample_b) = ''B''"
  "table_dumps (json_of_sample sample_c) = ''C''"
  by (simp_all add: table_dumps_def json_of_sample_def
      json_of_probe_def json_of_resources_def sample_a_def sample_b_def sample_c_def
      probe_up_def probe_down_def)

lemma lines_written:
  "sample_line table_dumps sample_a = ''A'' @ [CHR 0x0A]"
  "sample_line table_dumps sample_b = ''B'' @ [CHR 0x0A]"
  "sample_line table_dumps sample_c = ''C'' @ [CHR 0x0A]"
  by (simp_all add: sample_line_def dumps_written LF_def)

lemma loads_written:
  "table_loads (sample_line table_dumps sample_a) = Some (json_of_sample sample_a)"
  "table_loads (sample_line table_dumps sample_b) = Some (json_of_sample sample_b)"
  "table_loads (sample_line table_dumps sample_c) = Some (json_of_sample sample_c)"
  by (simp_all add: lines_written table_loads_def)

lemma junk_unrelated:
  "unrelated_line table_loads ''2024-03-14'' (''not json'' @ [CHR 0x0A])"
  "unrelated_line table_loads ''2024-03-14'' (''O'' @ [CHR 0x0A])"
  "unrelated_line table_loads ''2024-03-14'' (''{}'' @ [CHR 0x0A])"
  by (simp_all add: unrelated_line_def table_loads_def other_day_record_def record_date_def)

lemma stored_shuffle:
  "stored_lines \<in> shuffles (map (sample_line table_dumps) [sample_a, sample_b, sample_c]) junk_lines"
  by (simp add: lines_written stored_lines_def junk_lines_def Cons_in_shuffles_iff)

lemma sample_dates:
  "sample_date sample_a = ''2024-03-14''" "sample_date sample_b = ''2024-03-15''"
  "sample_date sample_c = ''2024-03-14''"
  by (simp_all add: sample_date_def sample_a_def sample_b_def sample_c_def)

lemma yesterday_of_march_15:
  "date_minus_days (today march_15) 1 = Inr \<lparr>year = 2024, month = 3, day = 14\<rparr>"
  by (simp add: date_minus_days_def march_15_def prev_day_def)

lemma decimal_4: "decimal 4 n =
  [digit_char (n div 10 div 10 div 10), digit_char (n div 10 div 10), digit_char (n div 10), digit_char n]"
proof -
  have "(4::nat) = Suc (Suc (Suc (Suc 0)))" by simp
  then show ?thesis by (simp only: decimal.simps append_Nil append_Cons)
qed

lemma decimal_2: "decimal 2 n = [digit_char (n div 10), digit_char n]"
proof -
  have "(2::nat) = Suc (Suc 0)" by simp
  then show ?thesis by (simp only: decimal.simps append_Nil append_Cons)
qed

lemma digits_four:
  assumes "1000 \<le> n" and "n \<le> 9999"
  shows "digits n = decimal 4 n"
proof -
  from assms have a: "\<not> n < 10" "\<not> n div 10 < 10" "\<not> n div 10 div 10 < 10"
    "n div 10 div 10 div 10 < 10"
    by linarith+
  show ?thesis
    by (simp add: digits.simps [of n] digits.simps [of "n div 10"]
        digits.simps [of "n div 10 div 10"] digits.simps [of "n div 10 div 10 div 10"]
        a decimal_4)
qed

lemma strftime_ymd_iso:
  "1000 \<le> year d \<Longrightarrow> year d \<le> 9999 \<Longrightarrow> strftime_ymd d = iso_date d"
  by (simp add: strftime_ymd_def iso_date_def digits_four)

lemma iso_examples:
  "iso_date \<lparr>year = 2024, month = 2, day = 14\<rparr> = ''2024-02-14''"
  "iso_date \<lparr>year = 2024, month = 2, day = 4\<rparr> = ''2024-02-04''"
  "iso_date \<lparr>year = 2024, month = 3, day = 14\<rparr> = ''2024-03-14''"
  by (simp_all add: iso_date_def decimal_4 decimal_2 digit_char_def)

lemma strftime_examples:
  "strftime_ymd \<lparr>year = 2024, month = 2, day = 14\<rparr> = ''2024-02-14''"
  "strftime_ymd \<lparr>year = 2024, month = 3, day = 14\<rparr> = ''2024-03-14''"
  by (simp_all add: strftime_ymd_iso iso_examples)

lemma summarise_a_c:
  "summarise [sample_a, sample_c] =
     \<lparr>fe_latencies = [JNum 12, JNum 12], be_latencies = [JNum 12],
      mem_percents = [JNum 41.5, JNum 43], disk_percents = [JNum 63, JNum 64],
      total_samples = 2, fe_up_count = 2, be_up_count = 1, both_up_count = 1\<rparr>"
  by (simp add: summarise_def sample_a_def sample_c_def probe_is_up_def probe_up_def probe_down_def)

lemma read_stored_lines:
  "read_lines ascii_decode (concat stored_lines) = Some stored_lines"
proof -
  have "ascii_decode (concat stored_lines) = Some (concat stored_lines)"
    by (simp add: ascii_decode_def stored_lines_def)
  moreover have "\<forall>l\<in>set stored_lines. proper_line l"
    by (simp add: stored_lines_def proper_line_def LF_def CR_def)
  ultimately show ?thesis by (rule read_lines_concat)
qed

lemma read_for_date_round_trip_example:
  "table_loads (sample_line table_dumps sample_a) = Some (json_of_sample sample_a) \<and>
   table_loads (sample_line table_dumps sample_b) = Some (json_of_sample sample_b) \<and>
   table_loads (sample_line table_dumps sample_c) = Some (json_of_sample sample_c) \<and>
   list_all (unrelated_line table_loads ''2024-03-14'') junk_lines \<and>
   stored_lines \<in> shuffles (map (sample_line table_dumps) [sample_a, sample_b, sample_c])
     junk_lines \<and>
   read_lines ascii_decode (concat stored_lines) = Some stored_lines \<and>
   scan_samples ascii_decode table_loads ''2024-03-14''
     (fold (append_sample ascii_encode table_dumps) [sample_a, sample_b, sample_c] no_files
        SamplesFile) =
     Inr \<lparr>fe_latencies = [JNum 12, JNum 12], be_latencies = [JNum 12],
      mem_percents = [JNum 41.5, JNum 43], disk_percents = [JNum 63, JNum 64],
      total_samples = 2, fe_up_count = 2, be_up_count = 1, both_up_count = 1\<rparr> \<and>
   scan_samples ascii_decode table_loads ''2024-03-14'' (Some (concat stored_lines)) =
     Inr \<lparr>fe_latencies = [JNum 12, JNum 12], be_latencies = [JNum 12],
      mem_percents = [JNum 41.5, JNum 43], disk_percents = [JNum 63, JNum 64],
      total_samples = 2, fe_up_count = 2, be_up_count = 1, both_up_count = 1\<rparr>"
proof -
  have h1: "\<forall>smp\<in>set [sample_a, sample_b, sample_c].
      table_loads (sample_line table_dumps smp) = Some (json_of_sample smp)"
    by (simp add: loads_written)
  have h2: "\<forall>smp\<in>set [sample_a, sample_b, sample_c].
      LF \<notin> set (table_dumps (json_of_sample smp)) \<and> CR \<notin> set (table_dumps (json_of_sample smp))"
    by (simp add: dumps_written LF_def CR_def)
  have h3: "no_files SamplesFile = None"
    by (simp add: no_files_def)
  have h4: "ascii_decode (contents (fold (append_sample ascii_encode table_dumps)
        [sample_a, sample_b, sample_c] no_files) SamplesFile) =
      Some (concat (map (sample_line table_dumps) [sample_a, sample_b, sample_c]))"
    by (simp only: contents_append_samples)
      (simp add: lines_written ascii_encode_def ascii_decode_def contents_def no_files_def)
  have h5: "\<forall>l\<in>set junk_lines. unrelated_line table_loads ''2024-03-14'' l"
    using junk_unrelated by (simp add: junk_lines_def)
  have f: "filter (\<lambda>smp. sample_date smp = ''2024-03-14'') [sample_a, sample_b, sample_c] =
      [sample_a, sample_c]"
    by (simp add: sample_dates)
  note T = read_for_date_round_trip [where loads = table_loads and dumps = table_dumps
      and decode = ascii_decode and encode = ascii_encode and fs = no_files
      and smps = "[sample_a, sample_b, sample_c]" and y = "''2024-03-14''",
      OF h1 h2 h3 h4 h5 stored_shuffle read_stored_lines]
  have r1: "scan_samples ascii_decode table_loads ''2024-03-14''
     (fold (append_sample ascii_encode table_dumps) [sample_a, sample_b, sample_c] no_files
        SamplesFile) =
     Inr \<lparr>fe_latencies = [JNum 12, JNum 12], be_latencies = [JNum 12],
      mem_percents = [JNum 41.5, JNum 43], disk_percents = [JNum 63, JNum 64],
      total_samples = 2, fe_up_count = 2, be_up_count = 1, both_up_count = 1\<rparr>"
    using T [THEN conjunct1] by (simp only: f summarise_a_c)
  have r2: "scan_samples ascii_decode table_loads ''2024-03-14'' (Some (concat stored_lines)) =
     Inr \<lparr>fe_latencies = [JNum 12, JNum 12], be_latencies = [JNum 12],
      mem_percents = [JNum 41.5, JNum 43], disk_percents = [JNum 63, JNum 64],
      total_samples = 2, fe_up_count = 2, be_up_count = 1, both_up_count = 1\<rparr>"
    using T [THEN conjunct2] by (simp only: f summarise_a_c)
  have j: "list_all (unrelated_line table_loads ''2024-03-14'') junk_lines"
    using h5 by (simp add: list_all_iff)
  from loads_written j stored_shuffle read_stored_lines r1 r2 show ?thesis by blast
qed

text \<open>
  Claim C5. The scan skips a malformed line only when the line decodes: the loop that
  reads the lines is outside the \<^verbatim>\<open>try\<close> that skips them. Appending \<open>sample_a\<close> and
  \<open>sample_c\<close> gives a file whose scan for 14 March 2024 yields both records. With one
  more line between the two, made of the byte \<open>0xFF\<close> (which is invalid in UTF-8 as in
  ASCII) and a line feed, the scan does not yield the two records: it raises
  \<^verbatim>\<open>UnicodeDecodeError\<close>, and so does \<^verbatim>\<open>run_daily_summary\<close>, which sends nothing and
  does not advance the summary date.
\<close>

theorem undecodable_line_stops_scan:
  "fold (append_sample ascii_encode table_dumps) [sample_a, sample_c] no_files SamplesFile =
     Some (''A'' @ [CHR 0x0A] @ ''C'' @ [CHR 0x0A]) \<and>
   scan_samples ascii_decode table_loads ''2024-03-14''
     (Some (''A'' @ [CHR 0x0A] @ ''C'' @ [CHR 0x0A])) = Inr (summarise [sample_a, sample_c]) \<and>
   unrelated_line table_loads ''2024-03-14'' [CHR 0xFF, CHR 0x0A] \<and>
   scan_samples ascii_decode table_loads ''2024-03-14''
     (Some (''A'' @ [CHR 0x0A] @ [CHR 0xFF, CHR 0x0A] @ ''C'' @ [CHR 0x0A])) =
     Inl UnicodeDecodeError \<and>
   run_daily_summary ascii_decode ascii_encode table_loads plain_render 30 march_15 march_15 []
     initial_state
     (no_files(SamplesFile \<mapsto> ''A'' @ [CHR 0x0A] @ [CHR 0xFF, CHR 0x0A] @ ''C'' @ [CHR 0x0A])) =
     (Some UnicodeDecodeError, initial_state, [],
      no_files(SamplesFile \<mapsto> ''A'' @ [CHR 0x0A] @ [CHR 0xFF, CHR 0x0A] @ ''C'' @ [CHR 0x0A]))"
proof -
  have a: "fold (append_sample ascii_encode table_dumps) [sample_a, sample_c] no_files SamplesFile =
     Some (''A'' @ [CHR 0x0A] @ ''C'' @ [CHR 0x0A])"
    by (simp add: append_sample_def lines_written ascii_encode_def contents_def no_files_def)
  have "read_lines ascii_decode (''A'' @ [CHR 0x0A] @ ''C'' @ [CHR 0x0A]) =
      Some (map (sample_line table_dumps) [sample_a, sample_c])"
    by (simp add: read_lines_def ascii_decode_def lines_written LF_def CR_def)
  moreover have "scan_lines table_loads ''2024-03-14'' (map (sample_line table_dumps) [sample_a, sample_c]) =
      summarise (filter (\<lambda>smp. sample_date smp = ''2024-03-14'') [sample_a, sample_c])"
    by (rule scan_lines_samples) (simp add: loads_written)
  ultimately have b: "scan_samples ascii_decode table_loads ''2024-03-14''
     (Some (''A'' @ [CHR 0x0A] @ ''C'' @ [CHR 0x0A])) = Inr (summarise [sample_a, sample_c])"
    by (simp add: scan_samples_def sample_dates)
  have c: "unrelated_line table_loads ''2024-03-14'' [CHR 0xFF, CHR 0x0A]"
    by (simp add: unrelated_line_def table_loads_def)
  have d: "scan_samples ascii_decode table_loads ''2024-03-14''
     (Some (''A'' @ [CHR 0x0A] @ [CHR 0xFF, CHR 0x0A] @ ''C'' @ [CHR 0x0A])) =
     Inl UnicodeDecodeError"
    by (simp add: scan_samples_def read_lines_def ascii_decode_def)
  have e: "run_daily_summary ascii_decode ascii_encode table_loads plain_render 30 march_15 march_15 []
     initial_state
     (no_files(SamplesFile \<mapsto> ''A'' @ [CHR 0x0A] @ [CHR 0xFF, CHR 0x0A] @ ''C'' @ [CHR 0x0A])) =
     (Some UnicodeDecodeError, initial_state, [],
      no_files(SamplesFile \<mapsto> ''A'' @ [CHR 0x0A] @ [CHR 0xFF, CHR 0x0A] @ ''C'' @ [CHR 0x0A]))"
    using d
    by (simp add: run_daily_summary_def yesterday_of_march_15 strftime_examples initial_state_def)
  from a b c d e show ?thesis by blast
qed

lemma partial_record_fields:
  "table_loads (''P'' @ [CHR 0x0A]) = Some partial_record"
  "record_date partial_record = Inr (JStr ''2024-03-14'')"
  "status_is_up partial_record ''frontend'' = Inr True"
  "getitem2 partial_record ''frontend'' ''latency_ms'' = Inr (JNum 12)"
  "status_is_up partial_record ''backend'' = Inr True"
  "getitem2 partial_record ''backend'' ''latency_ms'' = Inr (JNum 7)"
  "getitem2 partial_record ''resources'' ''mem_percent'' = Inl KeyError"
  by (simp_all add: table_loads_def partial_record_def record_date_def status_is_up_def getitem2_def)

lemma read_partial_line:
  "read_lines ascii_decode (''P'' @ [CHR 0x0A]) = Some [''P'' @ [CHR 0x0A]]"
  by (simp add: read_lines_def ascii_decode_def LF_def CR_def)

theorem scan_counts_partial_record_witness:
  "table_loads (''P'' @ [CHR 0x0A]) = Some partial_record \<and>
   record_date partial_record = Inr (JStr ''2024-03-14'') \<and>
   getitem2 partial_record ''resources'' ''mem_percent'' = Inl KeyError \<and>
   total_samples (scan_lines table_loads ''2024-03-14'' [''P'' @ [CHR 0x0A]]) = 1 \<and>
   fe_latencies (scan_lines table_loads ''2024-03-14'' [''P'' @ [CHR 0x0A]]) = [JNum 12] \<and>
   be_latencies (scan_lines table_loads ''2024-03-14'' [''P'' @ [CHR 0x0A]]) = [JNum 7] \<and>
   mem_percents (scan_lines table_loads ''2024-03-14'' [''P'' @ [CHR 0x0A]]) = [] \<and>
   disk_percents (scan_lines table_loads ''2024-03-14'' [''P'' @ [CHR 0x0A]]) = [] \<and>
   read_lines ascii_decode (''P'' @ [CHR 0x0A]) = Some [''P'' @ [CHR 0x0A]] \<and>
   scan_samples ascii_decode table_loads ''2024-03-14'' (Some (''P'' @ [CHR 0x0A])) =
     Inr \<lparr>fe_latencies = [JNum 12], be_latencies = [JNum 7], mem_percents = [],
          disk_percents = [], total_samples = 1, fe_up_count = 1, be_up_count = 1,
          both_up_count = 1\<rparr>"
proof -
  note T = scan_counts_partial_record [where loads = table_loads and line = "''P'' @ [CHR 0x0A]"
      and a = empty_acc and decode = ascii_decode and bytes = "''P'' @ [CHR 0x0A]",
      OF partial_record_fields]
  note f = T [THEN conjunct2, THEN conjunct2, THEN conjunct2, THEN conjunct2, THEN conjunct2,
      THEN conjunct2, THEN mp, OF read_partial_line]
  from T partial_record_fields read_partial_line f show ?thesis by blast
qed

lemma no_samples_on_march_14:
  "scan_samples ascii_decode table_loads ''2024-03-14''
     ((no_files(SamplesFile \<mapsto> ''B'' @ [CHR 0x0A] @ ''not json'' @ [CHR 0x0A])) SamplesFile) =
     Inr empty_acc"
proof -
  have "read_lines ascii_decode (''B'' @ [CHR 0x0A] @ ''not json'' @ [CHR 0x0A]) =
      Some [''B'' @ [CHR 0x0A], ''not json'' @ [CHR 0x0A]]"
    by (simp add: read_lines_def ascii_decode_def LF_def CR_def)
  then show ?thesis
    by (simp add: scan_samples_def scan_lines_def scan_line_def table_loads_def record_date_def
        json_of_sample_def json_of_resources_def sample_b_def)
qed

theorem no_samples_advances_summary_date_witness:
  "date_minus_days (today march_15) 1 = Inr \<lparr>year = 2024, month = 3, day = 14\<rparr> \<and>
   scan_samples ascii_decode table_loads ''2024-03-14''
     ((no_files(SamplesFile \<mapsto> ''B'' @ [CHR 0x0A] @ ''not json'' @ [CHR 0x0A])) SamplesFile) =
     Inr empty_acc \<and>
   total_samples empty_acc = 0 \<and>
   run_daily_summary ascii_decode ascii_encode table_loads plain_render 30 march_15 march_15 []
     initial_state (no_files(SamplesFile \<mapsto> ''B'' @ [CHR 0x0A] @ ''not json'' @ [CHR 0x0A])) =
     (None, initial_state\<lparr>last_summary_date := ''2024-03-14''\<rparr>, [],
      no_files(SamplesFile \<mapsto> ''B'' @ [CHR 0x0A] @ ''not json'' @ [CHR 0x0A])) \<and>
   run_daily_summary ascii_decode ascii_encode table_loads plain_render 30 march_15 march_15 []
     (initial_state\<lparr>last_summary_date := ''2024-03-14''\<rparr>)
     (no_files(SamplesFile \<mapsto> ''C'' @ [CHR 0x0A])) =
     (None, initial_state\<lparr>last_summary_date := ''2024-03-14''\<rparr>, [],
      no_files(SamplesFile \<mapsto> ''C'' @ [CHR 0x0A]))"
proof -
  let ?fs = "no_files(SamplesFile \<mapsto> ''B'' @ [CHR 0x0A] @ ''not json'' @ [CHR 0x0A])"
  let ?y = "\<lparr>year = 2024, month = 3, day = 14\<rparr>"
  have h2: "scan_samples ascii_decode table_loads (strftime_ymd ?y) (?fs SamplesFile) = Inr empty_acc"
    by (simp only: strftime_examples no_samples_on_march_14)
  have h3: "total_samples empty_acc = 0"
    by (simp add: empty_acc_def)
  note T = no_samples_advances_summary_date [where loads = table_loads and fs = ?fs
        and decode = ascii_decode and encode = ascii_encode and render = plain_render
        and flushed = "[]" and now = march_15 and yd = ?y and a = empty_acc
        and now' = march_15 and s = initial_state and retention_days = 30 and now_p = march_15
        and decode' = ascii_decode and encode' = ascii_encode and render' = plain_render
        and flushed' = "[]"
        and loads' = table_loads and retention_days' = 30 and now_p' = march_15
        and fs' = "no_files(SamplesFile \<mapsto> ''C'' @ [CHR 0x0A])",
      OF yesterday_of_march_15 h2 h3]
  from T [THEN conjunct1]
  have a: "run_daily_summary ascii_decode ascii_encode table_loads plain_render 30 march_15 march_15 []
     initial_state ?fs =
     (None, initial_state\<lparr>last_summary_date := ''2024-03-14''\<rparr>, [], ?fs)"
    by (simp only: strftime_examples)
  from T [THEN conjunct2, THEN mp, OF yesterday_of_march_15]
  have b: "run_daily_summary ascii_decode ascii_encode table_loads plain_render 30 march_15 march_15 []
     (initial_state\<lparr>last_summary_date := ''2024-03-14''\<rparr>)
     (no_files(SamplesFile \<mapsto> ''C'' @ [CHR 0x0A])) =
     (None, initial_state\<lparr>last_summary_date := ''2024-03-14''\<rparr>, [],
      no_files(SamplesFile \<mapsto> ''C'' @ [CHR 0x0A]))"
    by (simp only: strftime_examples)
  from yesterday_of_march_15 no_samples_on_march_14 h3 a b show ?thesis by blast
qed

section \<open>Properties of saving the state\<close>

lemma observable_save_state:
  "observable fs (save_state_ops encode dumps s) =
     [fs, fs(StateFile \<mapsto> []), fs(StateFile \<mapsto> encode (dumps (json_of_state s)))]"
  by (simp add: save_state_ops_def contents_def)

lemma save_state_result:
  "save_state encode dumps s fs = fs(StateFile \<mapsto> encode (dumps (json_of_state s)))"
  by (simp add: save_state_def run_ops_def save_state_ops_def contents_def)

text \<open>
  Claim C4, as amended. \<^verbatim>\<open>save_state\<close> overwrites the state file in place: it opens the
  file for writing, which empties it, and then writes the whole serialised state. It
  writes no temporary file and renames nothing. When it has finished, the state file
  holds exactly the serialised state, whatever it held before, and no other file has
  changed; between the two steps the state file is there and empty.
\<close>

theorem save_state_overwrites_in_place:
  "save_state encode dumps s fs StateFile = Some (encode (dumps (json_of_state s))) \<and>
   save_state encode dumps s fs SamplesFile = fs SamplesFile \<and>
   save_state encode dumps s fs SamplesTmp = fs SamplesTmp \<and>
   save_state_ops encode dumps s =
     [OpenTruncate StateFile, WriteBytes StateFile (encode (dumps (json_of_state s)))] \<and>
   \<not> list_ex is_replace (save_state_ops encode dumps s) \<and>
   observable fs (save_state_ops encode dumps s) =
     [fs, fs(StateFile \<mapsto> []), fs(StateFile \<mapsto> encode (dumps (json_of_state s)))] \<and>
   last (observable fs (save_state_ops encode dumps s)) = save_state encode dumps s fs"
  by (simp add: save_state_result observable_save_state) (simp add: save_state_ops_def)

text \<open>
  Claim C4 as stated fails: saving the state \<open>down_state\<close> over a file that holds the
  initial state passes through a file system whose state file is empty, which is neither
  the old nor the new contents.
\<close>

theorem save_state_not_all_or_nothing:
  "\<not> all_or_nothing StateFile
       (no_files(StateFile \<mapsto> ascii_encode (table_dumps (json_of_state initial_state))))
       (save_state_ops ascii_encode table_dumps down_state) \<and>
   (observable (no_files(StateFile \<mapsto> ascii_encode (table_dumps (json_of_state initial_state))))
      (save_state_ops ascii_encode table_dumps down_state) ! 1) StateFile = Some [] \<and>
   (no_files(StateFile \<mapsto> ascii_encode (table_dumps (json_of_state initial_state)))) StateFile =
     Some ''S0'' \<and>
   save_state ascii_encode table_dumps down_state
     (no_files(StateFile \<mapsto> ascii_encode (table_dumps (json_of_state initial_state)))) StateFile =
     Some ''S1''"
proof -
  have d0: "table_dumps (json_of_state initial_state) = ''S0''"
    by (simp add: table_dumps_def json_of_state_def json_of_sample_def initial_state_def)
  have d1: "table_dumps (json_of_state down_state) = ''S1''"
    by (simp add: table_dumps_def json_of_state_def json_of_sample_def initial_state_def down_state_def)
  show ?thesis
    by (simp add: all_or_nothing_def observable_save_state save_state_result run_ops_def
        save_state_ops_def contents_def ascii_encode_def d0 d1)
qed

section \<open>Properties of pruning\<close>

lemma prune_loop_filter:
  "prune_loop loads cutoff lines out = out @ filter (keep_line loads cutoff) lines"
  by (induction lines arbitrary: out) simp_all

lemma keep_line_iff:
  "keep_line loads cutoff line \<longleftrightarrow>
     (\<exists>s d. loads line = Some s \<and> record_date s = Inr (JStr d) \<and> py_str_le cutoff d)"
proof (cases "loads line")
  case None
  then show ?thesis by (simp add: keep_line_def)
next
  case (Some s)
  show ?thesis
  proof (cases "record_date s")
    case (Inl e)
    with Some show ?thesis by (simp add: keep_line_def)
  next
    case (Inr v)
    with Some show ?thesis by (cases v) (simp_all add: keep_line_def)
  qed
qed

lemma run_prune_ops:
  "run_ops (prune_ops encode loads cutoff lines) fs =
     (fs(SamplesFile \<mapsto> encode (concat (filter (keep_line loads cutoff) lines))))
       (SamplesTmp := None)"
  by (simp add: run_ops_def prune_ops_def prune_loop_filter contents_def)

lemma observable_prune_ops:
  "observable fs (prune_ops encode loads cutoff lines) =
     [fs, fs(SamplesTmp \<mapsto> []),
      fs(SamplesTmp \<mapsto> encode (concat (filter (keep_line loads cutoff) lines))),
      (fs(SamplesFile \<mapsto> encode (concat (filter (keep_line loads cutoff) lines))))
        (SamplesTmp := None)]"
  by (simp add: prune_ops_def prune_loop_filter contents_def fun_upd_twist)

lemma prune_all_or_nothing:
  "all_or_nothing SamplesFile fs (prune_ops encode loads cutoff lines)"
  by (simp add: all_or_nothing_def observable_prune_ops run_prune_ops)

lemma prune_samples_result:
  assumes "date_minus_days (today now) retention_days = Inr c"
    and "fs SamplesFile = Some bytes"
    and "decode bytes = Some decoded"
  shows "prune_samples decode encode loads retention_days now flushed fs =
           (None, (fs(SamplesFile \<mapsto> encode (concat (filter (keep_line loads (strftime_ymd c))
                      (split_lines [] (universal_newlines decoded))))))
                    (SamplesTmp := None))"
  using assms by (simp add: prune_samples_def read_lines_def run_prune_ops)

lemma prune_samples_undecodable:
  assumes "date_minus_days (today now) retention_days = Inr c"
    and "fs SamplesFile = Some bytes"
    and "decode bytes = None"
  shows "prune_samples decode encode loads retention_days now flushed fs =
           (None, fs(SamplesTmp \<mapsto> flushed))"
  using assms by (simp add: prune_samples_def read_lines_def)

lemma lines_of_text:
  assumes "\<forall>l\<in>set ls. proper_line l"
  shows "split_lines [] (universal_newlines (concat ls)) = ls"
  using universal_newlines_id [OF no_CR_proper_lines [OF assms]] split_lines_concat [OF assms]
  by simp

lemma encode_concat:
  assumes "\<forall>t u. encode (t @ u) = encode t @ encode u"
  shows "encode (concat ls) = concat (map encode ls)"
proof -
  have "encode ([] @ []) = encode [] @ encode []"
    using assms by blast
  then have e: "encode [] = []" by simp
  show ?thesis
    by (induction ls) (simp_all add: e assms)
qed

lemma py_str_le_refl [simp]: "py_str_le s s"
  by (induction s) simp_all

lemma py_str_le_append:
  "length a = length a' \<Longrightarrow>
     py_str_le (a @ b) (a' @ b') = (if a = a' then py_str_le b b' else py_str_le a a')"
proof (induction a a' rule: list_induct2)
  case Nil
  then show ?case by simp
next
  case (Cons x xs y ys)
  show ?case
  proof (cases "x = y")
    case True
    with Cons show ?thesis by simp
  next
    case False
    then have "(of_char x :: nat) \<noteq> of_char y" by simp
    then show ?thesis using False by auto
  qed
qed

lemma length_decimal [simp]: "length (decimal w n) = w"
  by (induction w arbitrary: n) simp_all

lemma upt_0_10: "[0..<10::nat] = [0, 1, 2, 3, 4, 5, 6, 7, 8, 9]"
  by code_simp

lemma below_ten_cases:
  assumes "k < 10" and "\<forall>j\<in>set [0, 1, 2, 3, 4, 5, 6, 7, 8, 9]. P (j::nat)"
  shows "P k"
proof -
  from assms(1) have "k \<in> set [0..<10]" by simp
  with assms(2) show ?thesis by (simp only: upt_0_10)
qed

lemma of_char_digit_char: "(of_char (digit_char n) :: nat) = 48 + n mod 10"
proof -
  have "n mod 10 < 10" by simp
  then have "(of_char (''0123456789'' ! (n mod 10)) :: nat) = 48 + n mod 10"
    by (rule below_ten_cases) simp
  then show ?thesis by (simp only: digit_char_def)
qed

lemma digit_char_eq_iff: "digit_char n = digit_char m \<longleftrightarrow> n mod 10 = m mod 10"
proof
  assume "digit_char n = digit_char m"
  then have "(of_char (digit_char n) :: nat) = of_char (digit_char m)" by simp
  then show "n mod 10 = m mod 10" by (simp only: of_char_digit_char add_left_cancel)
next
  assume "n mod 10 = m mod 10"
  then show "digit_char n = digit_char m" by (simp add: digit_char_def)
qed

lemma py_str_le_digit:
  "py_str_le [digit_char n] [digit_char m] \<longleftrightarrow> n mod 10 \<le> m mod 10"
  by (simp add: of_char_digit_char)

lemma decimal_eq_iff:
  "decimal w n = decimal w m \<longleftrightarrow> n mod 10 ^ w = m mod 10 ^ w"
proof (induction w arbitrary: n m)
  case 0
  show ?case by simp
next
  case (Suc w)
  have "decimal (Suc w) n = decimal (Suc w) m \<longleftrightarrow>
      decimal w (n div 10) = decimal w (m div 10) \<and> digit_char n = digit_char m"
    by simp
  also have "\<dots> \<longleftrightarrow> (n div 10) mod 10 ^ w = (m div 10) mod 10 ^ w \<and> n mod 10 = m mod 10"
    by (simp only: Suc.IH digit_char_eq_iff)
  also have "\<dots> \<longleftrightarrow> n mod 10 ^ Suc w = m mod 10 ^ Suc w"
  proof -
    have e: "k mod 10 ^ Suc w = 10 * ((k div 10) mod 10 ^ w) + k mod 10" for k :: nat
      by (simp add: mod_mult2_eq)
    have c: "(a = b \<and> r = s) = (10 * a + r = 10 * b + s)" if "r < 10" "s < 10" for a b r s :: nat
      using that by arith
    show ?thesis unfolding e [of n] e [of m] by (rule c) simp_all
  qed
  finally show ?case .
qed

lemma py_str_le_decimal:
  assumes "n < 10 ^ w" and "m < 10 ^ w"
  shows "py_str_le (decimal w n) (decimal w m) \<longleftrightarrow> n \<le> m"
  using assms
proof (induction w arbitrary: n m)
  case 0
  then show ?case by simp
next
  case (Suc w)
  have n: "n div 10 < 10 ^ w" and m: "m div 10 < 10 ^ w"
    using Suc.prems by (simp_all add: less_mult_imp_div_less mult.commute)
  have eq: "decimal w (n div 10) = decimal w (m div 10) \<longleftrightarrow> n div 10 = m div 10"
    using n m by (simp add: decimal_eq_iff)
  have "py_str_le (decimal (Suc w) n) (decimal (Suc w) m) =
      (if n div 10 = m div 10 then n mod 10 \<le> m mod 10 else n div 10 \<le> m div 10)"
    by (simp only: decimal.simps py_str_le_append length_decimal eq py_str_le_digit
        Suc.IH [OF n m])
  also have "\<dots> \<longleftrightarrow> 10 * (n div 10) + n mod 10 \<le> 10 * (m div 10) + m mod 10"
  proof -
    have c: "(if a = b then r \<le> s else a \<le> b) = (10 * a + r \<le> 10 * b + s)"
      if "r < 10" "s < 10" for a b r s :: nat
      using that by (cases "a = b") (simp, arith)
    show ?thesis by (rule c) simp_all
  qed
  also have "\<dots> \<longleftrightarrow> n \<le> m"
    by simp
  finally show ?case .
qed

lemma py_str_le_Cons_same [simp]: "py_str_le (x # s) (x # t) = py_str_le s t"
  by simp

lemma iso_date_le:
  assumes "0 \<le> year c" "year c \<le> 9999" "0 \<le> year d" "year d \<le> 9999"
    and "month c < 100" "month d < 100" "day c < 100" "day d < 100"
  shows "py_str_le (iso_date c) (iso_date d) \<longleftrightarrow> date_le c d"
proof -
  have y: "nat (year c) < 10 ^ 4" "nat (year d) < 10 ^ 4"
    using assms(1-4) by simp_all
  have m: "month c < 10 ^ 2" "month d < 10 ^ 2" and dd: "day c < 10 ^ 2" "day d < 10 ^ 2"
    using assms(5-8) by simp_all
  have ye: "decimal 4 (nat (year c)) = decimal 4 (nat (year d)) \<longleftrightarrow> year c = year d"
    using y assms(1,3) by (simp add: decimal_eq_iff nat_eq_iff)
  have me: "decimal 2 (month c) = decimal 2 (month d) \<longleftrightarrow> month c = month d"
    using m by (simp add: decimal_eq_iff)
  have yl: "py_str_le (decimal 4 (nat (year c))) (decimal 4 (nat (year d))) \<longleftrightarrow> year c \<le> year d"
    using assms(1,3) by (simp add: py_str_le_decimal [OF y] nat_le_eq_zle)
  have ml: "py_str_le (decimal 2 (month c)) (decimal 2 (month d)) \<longleftrightarrow> month c \<le> month d"
    by (rule py_str_le_decimal [OF m])
  have dl: "py_str_le (decimal 2 (day c)) (decimal 2 (day d)) \<longleftrightarrow> day c \<le> day d"
    by (rule py_str_le_decimal [OF dd])
  have "py_str_le (iso_date c) (iso_date d) =
      (if year c = year d
       then (if month c = month d then day c \<le> day d else month c \<le> month d)
       else year c \<le> year d)"
    unfolding iso_date_def
    by (simp only: py_str_le_append length_decimal ye me yl ml dl append_Cons append_Nil
        py_str_le_Cons_same)
  also have "\<dots> \<longleftrightarrow> date_le c d"
    by (auto simp: date_le_def)
  finally show ?thesis .
qed


lemma days_in_month_bounds: "28 \<le> days_in_month y m" "days_in_month y m \<le> 31"
  by (simp_all add: days_in_month_def)

lemma valid_prev_day:
  assumes "valid_date d"
  shows "valid_date (prev_day d)"
proof -
  from assms have v: "1 \<le> month d" "month d \<le> 12" "1 \<le> day d"
    "day d \<le> days_in_month (year d) (month d)"
    by (simp_all add: valid_date_def)
  consider "1 < day d" | "\<not> 1 < day d" "1 < month d" | "\<not> 1 < day d" "\<not> 1 < month d"
    by blast
  then show ?thesis
  proof cases
    case 1
    with v show ?thesis by (simp add: valid_date_def prev_day_def) arith
  next
    case 2
    with v days_in_month_bounds(1) [of "year d" "month d - 1"] show ?thesis
      by (simp add: valid_date_def prev_day_def) arith
  next
    case 3
    then show ?thesis by (simp add: valid_date_def prev_day_def days_in_month_def)
  qed
qed

lemma date_key_prev_day:
  assumes "valid_date d"
  shows "date_key (prev_day d) < date_key d"
proof -
  from assms have v: "1 \<le> month d" "month d \<le> 12" "1 \<le> day d"
    by (simp_all add: valid_date_def)
  consider "1 < day d" | "\<not> 1 < day d" "1 < month d" | "\<not> 1 < day d" "\<not> 1 < month d"
    by blast
  then show ?thesis
  proof cases
    case 1
    then show ?thesis by (simp add: date_key_def prev_day_def)
  next
    case 2
    with v have "day d = 1" by simp
    moreover have "int (days_in_month (year d) (month d - 1)) \<le> 31"
      using days_in_month_bounds(2) [of "year d" "month d - 1"] by simp
    moreover have "int (month d - 1) = int (month d) - 1"
      using 2 by simp
    ultimately show ?thesis using 2 by (simp add: date_key_def prev_day_def)
  next
    case 3
    with v have "day d = 1" "month d = 1" by simp_all
    with 3 show ?thesis by (simp add: date_key_def prev_day_def)
  qed
qed

lemma year_prev_day: "year (prev_day d) \<le> year d"
  by (simp add: prev_day_def)

lemma date_le_key:
  assumes "valid_date c" and "valid_date d"
  shows "date_le c d \<longleftrightarrow> date_key c \<le> date_key d"
proof -
  have b: "int (month c) \<le> 12" "int (month d) \<le> 12" "1 \<le> int (month c)" "1 \<le> int (month d)"
    "1 \<le> int (day c)" "1 \<le> int (day d)" "int (day c) \<le> 31" "int (day d) \<le> 31"
    using assms days_in_month_bounds(2) [of "year c" "month c"]
      days_in_month_bounds(2) [of "year d" "month d"]
    by (simp_all add: valid_date_def)
  consider "year c < year d" | "year d < year c"
    | "year c = year d" "month c < month d" | "year c = year d" "month d < month c"
    | "year c = year d" "month c = month d"
    by linarith
  then show ?thesis
  proof cases
    case 1
    then have "date_key c \<le> date_key d" using b unfolding date_key_def by linarith
    with 1 show ?thesis by (simp add: date_le_def)
  next
    case 2
    then have "\<not> date_key c \<le> date_key d" using b unfolding date_key_def by linarith
    with 2 show ?thesis by (simp add: date_le_def)
  next
    case 3
    then have "int (month c) < int (month d)" by simp
    with 3 have "date_key c \<le> date_key d" using b unfolding date_key_def by linarith
    with 3 show ?thesis by (simp add: date_le_def)
  next
    case 4
    then have "int (month d) < int (month c)" by simp
    with 4 have "\<not> date_key c \<le> date_key d" using b unfolding date_key_def by linarith
    with 4 show ?thesis by (simp add: date_le_def)
  next
    case 5
    then show ?thesis by (simp add: date_le_def date_key_def)
  qed
qed

lemma days_before_Suc: "days_before d (Suc k) = prev_day (days_before d k)"
  by (simp add: days_before_def)

lemma valid_days_before: "valid_date d \<Longrightarrow> valid_date (days_before d k)"
  by (induction k) (simp_all add: days_before_Suc valid_prev_day, simp add: days_before_def)

lemma year_days_before: "year (days_before d k) \<le> year d"
proof (induction k)
  case 0
  show ?case by (simp add: days_before_def)
next
  case (Suc k)
  have "year (days_before d (Suc k)) \<le> year (days_before d k)"
    by (simp add: days_before_Suc year_prev_day)
  with Suc show ?case by simp
qed

lemma date_key_days_before_less:
  assumes "valid_date d" and "j < k"
  shows "date_key (days_before d k) < date_key (days_before d j)"
  using assms(2)
proof (induction k)
  case 0
  then show ?case by simp
next
  case (Suc k)
  have step: "date_key (days_before d (Suc k)) < date_key (days_before d k)"
    using assms(1) by (simp add: days_before_Suc date_key_prev_day valid_days_before)
  show ?case
  proof (cases "j = k")
    case True
    with step show ?thesis by simp
  next
    case False
    with Suc.prems have "j < k" by simp
    with Suc.IH step show ?thesis by simp
  qed
qed

lemma date_le_days_before:
  assumes "valid_date d"
  shows "date_le (days_before d r) (days_before d k) \<longleftrightarrow> k \<le> r"
proof -
  have v: "valid_date (days_before d r)" "valid_date (days_before d k)"
    using assms by (simp_all add: valid_days_before)
  show ?thesis
  proof (cases "k \<le> r")
    case True
    then have "k = r \<or> k < r" by auto
    then have "date_key (days_before d r) \<le> date_key (days_before d k)"
      using date_key_days_before_less [OF assms, of k r] by auto
    with True show ?thesis by (simp add: date_le_key [OF v])
  next
    case False
    then have "r < k" by simp
    then have "date_key (days_before d k) < date_key (days_before d r)"
      by (rule date_key_days_before_less [OF assms])
    with False show ?thesis by (simp add: date_le_key [OF v])
  qed
qed

lemma date_minus_days_nat:
  "date_minus_days d (int r) = Inr c \<longleftrightarrow>
     c = days_before d r \<and> 1 \<le> year (days_before d r) \<and> year (days_before d r) \<le> 9999"
  by (auto simp: date_minus_days_def days_before_def Let_def)

lemma valid_next_day:
  assumes "valid_date d"
  shows "valid_date (next_day d)"
proof -
  from assms have v: "1 \<le> month d" "month d \<le> 12" "1 \<le> day d"
    "day d \<le> days_in_month (year d) (month d)"
    by (simp_all add: valid_date_def)
  consider "day d < days_in_month (year d) (month d)"
    | "\<not> day d < days_in_month (year d) (month d)" "month d < 12"
    | "\<not> day d < days_in_month (year d) (month d)" "\<not> month d < 12"
    by blast
  then show ?thesis
  proof cases
    case 1
    with v show ?thesis by (simp add: valid_date_def next_day_def)
  next
    case 2
    with v days_in_month_bounds(1) [of "year d" "month d + 1"] show ?thesis
      by (simp add: valid_date_def next_day_def)
  next
    case 3
    then show ?thesis by (simp add: valid_date_def next_day_def days_in_month_def)
  qed
qed

lemma valid_funpow_next_day: "valid_date d \<Longrightarrow> valid_date ((next_day ^^ k) d)"
  by (induction k) (simp_all add: valid_next_day)

lemma valid_date_minus_days:
  assumes "valid_date d" and "date_minus_days d k = Inr c"
  shows "valid_date c" and "1 \<le> year c" and "year c \<le> 9999"
proof -
  from assms(2) have c: "c = (if 0 \<le> k then (prev_day ^^ nat k) d else (next_day ^^ nat (- k)) d)"
    and y: "1 \<le> year c \<and> year c \<le> 9999"
    by (auto simp: date_minus_days_def Let_def split: if_splits)
  from y show "1 \<le> year c" and "year c \<le> 9999" by simp_all
  show "valid_date c"
    using assms(1) valid_days_before [of d "nat k"] valid_funpow_next_day [of d "nat (- k)"]
    by (simp add: c days_before_def)
qed

lemma year_days_before_mono:
  "j \<le> k \<Longrightarrow> year (days_before d k) \<le> year (days_before d j)"
proof (induction k)
  case 0
  then show ?case by simp
next
  case (Suc k)
  have step: "year (days_before d (Suc k)) \<le> year (days_before d k)"
    by (simp add: days_before_Suc year_prev_day)
  show ?case
  proof (cases "j = Suc k")
    case True
    then show ?thesis by simp
  next
    case False
    with Suc.prems have "j \<le> k" by simp
    with Suc.IH step show ?thesis by simp
  qed
qed

lemma valid_date_field_bounds:
  assumes "valid_date d"
  shows "month d < 100" and "day d < 100"
proof -
  from assms have "month d \<le> 12" "day d \<le> days_in_month (year d) (month d)"
    by (simp_all add: valid_date_def)
  with days_in_month_bounds(2) [of "year d" "month d"] show "month d < 100" and "day d < 100"
    by simp_all
qed

lemma iso_date_le_valid:
  assumes "valid_date c" "1 \<le> year c" "year c \<le> 9999"
    and "valid_date d" "1 \<le> year d" "year d \<le> 9999"
  shows "py_str_le (iso_date c) (iso_date d) \<longleftrightarrow> date_le c d"
  using assms valid_date_field_bounds [of c] valid_date_field_bounds [of d]
  by (intro iso_date_le) simp_all

lemma keep_record_of_date:
  assumes "loads line = Some s" and "record_date s = Inr (JStr (iso_date d))"
    and "valid_date c" "1 \<le> year c" "year c \<le> 9999"
    and "valid_date d" "1 \<le> year d" "year d \<le> 9999"
  shows "keep_line loads (iso_date c) line \<longleftrightarrow> date_le c d"
  using assms(1,2) iso_date_le_valid [OF assms(3-8)]
  by (simp add: keep_line_def)

lemma keep_aged_sample:
  assumes "valid_date today_d"
    and "date_minus_days today_d (int r) = Inr c"
    and "sample_date smp = iso_date (days_before today_d k)"
    and "1 \<le> year (days_before today_d k)"
    and "loads (sample_line dumps smp) = Some (json_of_sample smp)"
    and "year today_d \<le> 9999"
  shows "keep_line loads (iso_date c) (sample_line dumps smp) \<longleftrightarrow> k \<le> r"
proof -
  have c: "c = days_before today_d r"
    using assms(2) by (simp add: date_minus_days_nat)
  have vc: "valid_date c" "1 \<le> year c" "year c \<le> 9999"
    using valid_date_minus_days [OF assms(1,2)] by simp_all
  have vd: "valid_date (days_before today_d k)"
    using assms(1) by (rule valid_days_before)
  have "year (days_before today_d k) \<le> year (days_before today_d 0)"
    by (rule year_days_before_mono) simp
  also have "\<dots> = year today_d" by (simp add: days_before_def)
  also have "\<dots> \<le> 9999" by (rule assms(6))
  finally have yk: "year (days_before today_d k) \<le> 9999" .
  have rd: "record_date (json_of_sample smp) = Inr (JStr (iso_date (days_before today_d k)))"
    by (simp add: record_date_sample assms(3))
  have "keep_line loads (iso_date c) (sample_line dumps smp) \<longleftrightarrow>
      date_le c (days_before today_d k)"
    using assms(5) rd vc vd assms(4) yk by (rule keep_record_of_date)
  also have "\<dots> \<longleftrightarrow> k \<le> r"
    unfolding c using assms(1) by (rule date_le_days_before)
  finally show ?thesis .
qed

lemma prune_aged_samples:
  assumes "valid_date today_d" and "year today_d \<le> 9999"
    and "date_minus_days today_d (int r) = Inr c"
    and "\<forall>(k, smp)\<in>set aged.
           sample_date smp = iso_date (days_before today_d k) \<and>
           1 \<le> year (days_before today_d k) \<and>
           loads (sample_line dumps smp) = Some (json_of_sample smp)"
  shows "filter (keep_line loads (iso_date c)) (map (\<lambda>(k, smp). sample_line dumps smp) aged) =
           map (\<lambda>(k, smp). sample_line dumps smp) (filter (\<lambda>(k, smp). k \<le> r) aged)"
proof -
  have "keep_line loads (iso_date c) (sample_line dumps smp) \<longleftrightarrow> k \<le> r"
    if "(k, smp) \<in> set aged" for k smp
    using assms(4) that keep_aged_sample [OF assms(1,3) _ _ _ assms(2), of smp k loads dumps]
    by auto
  then have "filter ((keep_line loads (iso_date c)) \<circ> (\<lambda>(k, smp). sample_line dumps smp)) aged =
      filter (\<lambda>(k, smp). k \<le> r) aged"
    by (intro filter_cong) auto
  then show ?thesis by (simp add: filter_map)
qed

lemma filter_recent_ages: "filter (\<lambda>k. k \<le> 30) (rev [0..<41]) = rev [0..<(31::nat)]"
  by code_simp

lemma prune_forty_days:
  assumes "valid_date today_d" and "year today_d \<le> 9999"
    and "date_minus_days today_d 30 = Inr c"
    and "1 \<le> year (days_before today_d 40)"
    and "\<forall>k\<le>40. sample_date (rec k) = iso_date (days_before today_d k) \<and>
           loads (sample_line dumps (rec k)) = Some (json_of_sample (rec k))"
  shows "filter (keep_line loads (iso_date c))
           (map (\<lambda>k. sample_line dumps (rec k)) (rev [0..<41])) =
         map (\<lambda>k. sample_line dumps (rec k)) (rev [0..<31])"
proof -
  let ?aged = "map (\<lambda>k. (k, rec k)) (rev [0..<41])"
  have a: "\<forall>(k, smp)\<in>set ?aged.
           sample_date smp = iso_date (days_before today_d k) \<and>
           1 \<le> year (days_before today_d k) \<and>
           loads (sample_line dumps smp) = Some (json_of_sample smp)"
  proof -
    have "1 \<le> year (days_before today_d k)" if "k \<le> 40" for k
      using year_days_before_mono [OF that, of today_d] assms(4) by simp
    with assms(5) show ?thesis by auto
  qed
  have r: "date_minus_days today_d (int 30) = Inr c"
    using assms(3) by simp
  have "filter (keep_line loads (iso_date c)) (map (\<lambda>(k, smp). sample_line dumps smp) ?aged) =
      map (\<lambda>(k, smp). sample_line dumps smp) (filter (\<lambda>(k, smp). k \<le> 30) ?aged)"
    using assms(1,2) r a by (rule prune_aged_samples)
  moreover have "map (\<lambda>(k, smp). sample_line dumps smp) ?aged =
      map (\<lambda>k. sample_line dumps (rec k)) (rev [0..<41])"
    by (simp add: comp_def)
  moreover have "filter (\<lambda>(k, smp). k \<le> 30) ?aged = map (\<lambda>k. (k, rec k)) (filter (\<lambda>k. k \<le> 30) (rev [0..<41]))"
    by (simp only: filter_map comp_def prod.case)
  ultimately show ?thesis
    by (simp only: filter_recent_ages) (simp add: comp_def)
qed

lemma year_date_minus_days:
  "date_minus_days d k = Inr c \<Longrightarrow> 1 \<le> year c \<and> year c \<le> 9999"
  by (simp add: date_minus_days_def Let_def split: if_splits)

text \<open>
  Claim C3, as amended. Let the cutoff, today minus the retention days, be a date, and let
  the samples file exist and decode. Pruning raises nothing and replaces the samples file
  in one step by the encoding of the lines that the loop keeps, in their order, where the
  lines are those of the decoded text after every line end has become a line feed; the
  temporary file is gone and the state file is not touched. A line is kept if and only if
  it parses to a record whose date, the first ten characters of its timestamp, is a string
  that is not below the cutoff as \<^verbatim>\<open>strftime\<close> writes it; lines without such a date are
  dropped with the records that are older. For a cutoff of the year 1000 or later and a
  record whose date is the calendar date \<open>d\<close> in ISO format this says: kept if and only
  if the cutoff is not after \<open>d\<close>, removed only if \<open>d\<close> is strictly older. When every
  line of the file ends in a line feed and has no other line end, and the codec encodes
  text piece by piece and writes the decoded text back as the bytes of the file, the file
  is the sequence of its encoded lines and the new file is the sequence of the encoded
  lines that are kept: the surviving lines stay byte for byte. Of records that are \<open>k\<close>
  days old exactly those with \<open>k\<close> at most the retention stay, and of records dated 40
  days ago up to today, with retention 30, those of the last 30 days and today stay, in
  their order. A samples file that does not decode keeps all its bytes.
\<close>

theorem prune_keeps_records_from_cutoff:
  assumes "date_minus_days (today now) retention_days = Inr c"
    and "fs SamplesFile = Some bytes"
    and "decode bytes = Some decoded"
  shows "fst (prune_samples decode encode loads retention_days now flushed fs) = None \<and>
         snd (prune_samples decode encode loads retention_days now flushed fs) SamplesFile =
           Some (encode (concat (filter (keep_line loads (strftime_ymd c))
                   (split_lines [] (universal_newlines decoded))))) \<and>
         snd (prune_samples decode encode loads retention_days now flushed fs) StateFile =
           fs StateFile \<and>
         snd (prune_samples decode encode loads retention_days now flushed fs) SamplesTmp = None \<and>
         (\<forall>line. keep_line loads (strftime_ymd c) line \<longleftrightarrow>
            (\<exists>s d. loads line = Some s \<and> record_date s = Inr (JStr d) \<and>
                   py_str_le (strftime_ymd c) d)) \<and>
         subseq (filter (keep_line loads (strftime_ymd c))
                   (split_lines [] (universal_newlines decoded)))
           (split_lines [] (universal_newlines decoded)) \<and>
         all_or_nothing SamplesFile fs
           (prune_ops encode loads (strftime_ymd c) (split_lines [] (universal_newlines decoded))) \<and>
         (\<forall>line s d. valid_date (today now) \<and> 1000 \<le> year c \<and> loads line = Some s \<and>
            record_date s = Inr (JStr (iso_date d)) \<and>
            valid_date d \<and> 1 \<le> year d \<and> year d \<le> 9999 \<longrightarrow>
            (keep_line loads (strftime_ymd c) line \<longleftrightarrow> date_le c d)) \<and>
         ((\<forall>l\<in>set ls. proper_line l) \<and> decoded = concat ls \<and> encode decoded = bytes \<and>
          (\<forall>t u. encode (t @ u) = encode t @ encode u) \<longrightarrow>
            bytes = concat (map encode ls) \<and>
            snd (prune_samples decode encode loads retention_days now flushed fs) SamplesFile =
              Some (concat (map encode (filter (keep_line loads (strftime_ymd c)) ls)))) \<and>
         (valid_date (today now) \<and> year (today now) \<le> 9999 \<and> retention_days = int r \<and>
          1000 \<le> year c \<and>
          (\<forall>(k, smp)\<in>set aged.
             sample_date smp = iso_date (days_before (today now) k) \<and>
             1 \<le> year (days_before (today now) k) \<and>
             loads (sample_line dumps smp) = Some (json_of_sample smp) \<and>
             LF \<notin> set (dumps (json_of_sample smp)) \<and> CR \<notin> set (dumps (json_of_sample smp))) \<and>
          decoded = concat (map (\<lambda>(k, smp). sample_line dumps smp) aged) \<longrightarrow>
            snd (prune_samples decode encode loads retention_days now flushed fs) SamplesFile =
              Some (encode (concat (map (\<lambda>(k, smp). sample_line dumps smp)
                      (filter (\<lambda>(k, smp). k \<le> r) aged))))) \<and>
         (valid_date (today now) \<and> year (today now) \<le> 9999 \<and> retention_days = 30 \<and>
          1000 \<le> year (days_before (today now) 40) \<and>
          (\<forall>k\<le>40. sample_date (rec k) = iso_date (days_before (today now) k) \<and>
             loads (sample_line dumps (rec k)) = Some (json_of_sample (rec k)) \<and>
             LF \<notin> set (dumps (json_of_sample (rec k))) \<and>
             CR \<notin> set (dumps (json_of_sample (rec k)))) \<and>
          decoded = concat (map (\<lambda>k. sample_line dumps (rec k)) (rev [0..<41])) \<longrightarrow>
            snd (prune_samples decode encode loads retention_days now flushed fs) SamplesFile =
              Some (encode (concat (map (\<lambda>k. sample_line dumps (rec k)) (rev [0..<31]))))) \<and>
         (fs' SamplesFile = Some bytes' \<and> decode bytes' = None \<longrightarrow>
            prune_samples decode encode loads retention_days now flushed fs' =
              (None, fs'(SamplesTmp \<mapsto> flushed)) \<and>
            snd (prune_samples decode encode loads retention_days now flushed fs') SamplesFile =
              Some bytes')"
proof -
  let ?cutoff = "strftime_ymd c"
  let ?lines = "split_lines [] (universal_newlines decoded)"
  let ?new = "snd (prune_samples decode encode loads retention_days now flushed fs) SamplesFile"
  note res = prune_samples_result [where fs = fs and loads = loads and encode = encode
      and decode = decode and flushed = flushed, OF assms]
  have yc: "year c \<le> 9999"
    using year_date_minus_days [OF assms(1)] by simp
  have p1: "fst (prune_samples decode encode loads retention_days now flushed fs) = None"
    by (simp add: res)
  have p2: "?new = Some (encode (concat (filter (keep_line loads ?cutoff) ?lines)))"
    by (simp add: res)
  have p3: "snd (prune_samples decode encode loads retention_days now flushed fs) StateFile =
      fs StateFile"
    by (simp add: res)
  have p3': "snd (prune_samples decode encode loads retention_days now flushed fs) SamplesTmp = None"
    by (simp add: res)
  have p4: "\<forall>line. keep_line loads ?cutoff line \<longleftrightarrow>
            (\<exists>s d. loads line = Some s \<and> record_date s = Inr (JStr d) \<and>
                   py_str_le ?cutoff d)"
    by (simp only: keep_line_iff) simp
  have p5: "subseq (filter (keep_line loads ?cutoff) ?lines) ?lines"
    by simp
  have p6: "all_or_nothing SamplesFile fs (prune_ops encode loads ?cutoff ?lines)"
    by (rule prune_all_or_nothing)
  have p7: "\<forall>line s d. valid_date (today now) \<and> 1000 \<le> year c \<and> loads line = Some s \<and>
            record_date s = Inr (JStr (iso_date d)) \<and>
            valid_date d \<and> 1 \<le> year d \<and> year d \<le> 9999 \<longrightarrow>
            (keep_line loads ?cutoff line \<longleftrightarrow> date_le c d)"
  proof (intro allI impI)
    fix line s d
    assume a: "valid_date (today now) \<and> 1000 \<le> year c \<and> loads line = Some s \<and>
            record_date s = Inr (JStr (iso_date d)) \<and>
            valid_date d \<and> 1 \<le> year d \<and> year d \<le> 9999"
    then have vc: "valid_date c" "1 \<le> year c" "year c \<le> 9999"
      using valid_date_minus_days [OF _ assms(1)] by simp_all
    from a have y: "1000 \<le> year c" by blast
    have sc: "?cutoff = iso_date c"
      using y yc by (rule strftime_ymd_iso)
    from a have l: "loads line = Some s"
      and rd: "record_date s = Inr (JStr (iso_date d))"
      and vd: "valid_date d" "1 \<le> year d" "year d \<le> 9999"
      by blast+
    from l rd vc vd show "keep_line loads ?cutoff line \<longleftrightarrow> date_le c d"
      unfolding sc by (rule keep_record_of_date)
  qed
  have p7': "(\<forall>l\<in>set ls. proper_line l) \<and> decoded = concat ls \<and> encode decoded = bytes \<and>
          (\<forall>t u. encode (t @ u) = encode t @ encode u) \<longrightarrow>
            bytes = concat (map encode ls) \<and>
            ?new = Some (concat (map encode (filter (keep_line loads ?cutoff) ls)))"
  proof
    assume a: "(\<forall>l\<in>set ls. proper_line l) \<and> decoded = concat ls \<and> encode decoded = bytes \<and>
          (\<forall>t u. encode (t @ u) = encode t @ encode u)"
    then have pl: "\<forall>l\<in>set ls. proper_line l" and tx: "decoded = concat ls"
      and en: "encode decoded = bytes" and hom: "\<forall>t u. encode (t @ u) = encode t @ encode u"
      by blast+
    have ln: "?lines = ls"
      unfolding tx using pl by (rule lines_of_text)
    have b: "bytes = concat (map encode ls)"
      using en tx encode_concat [OF hom, of ls] by simp
    have n: "?new = Some (concat (map encode (filter (keep_line loads ?cutoff) ls)))"
      unfolding p2 ln encode_concat [OF hom] by (rule refl)
    from b n show "bytes = concat (map encode ls) \<and>
            ?new = Some (concat (map encode (filter (keep_line loads ?cutoff) ls)))"
      by (rule conjI)
  qed
  have p8: "valid_date (today now) \<and> year (today now) \<le> 9999 \<and> retention_days = int r \<and>
          1000 \<le> year c \<and>
          (\<forall>(k, smp)\<in>set aged.
             sample_date smp = iso_date (days_before (today now) k) \<and>
             1 \<le> year (days_before (today now) k) \<and>
             loads (sample_line dumps smp) = Some (json_of_sample smp) \<and>
             LF \<notin> set (dumps (json_of_sample smp)) \<and> CR \<notin> set (dumps (json_of_sample smp))) \<and>
          decoded = concat (map (\<lambda>(k, smp). sample_line dumps smp) aged) \<longrightarrow>
            ?new = Some (encode (concat (map (\<lambda>(k, smp). sample_line dumps smp)
                      (filter (\<lambda>(k, smp). k \<le> r) aged))))"
  proof
    assume a: "valid_date (today now) \<and> year (today now) \<le> 9999 \<and> retention_days = int r \<and>
          1000 \<le> year c \<and>
          (\<forall>(k, smp)\<in>set aged.
             sample_date smp = iso_date (days_before (today now) k) \<and>
             1 \<le> year (days_before (today now) k) \<and>
             loads (sample_line dumps smp) = Some (json_of_sample smp) \<and>
             LF \<notin> set (dumps (json_of_sample smp)) \<and> CR \<notin> set (dumps (json_of_sample smp))) \<and>
          decoded = concat (map (\<lambda>(k, smp). sample_line dumps smp) aged)"
    then have v: "valid_date (today now)" and y: "year (today now) \<le> 9999"
      and y1000: "1000 \<le> year c"
      and tx: "decoded = concat (map (\<lambda>(k, smp). sample_line dumps smp) aged)"
      by blast+
    have sc: "?cutoff = iso_date c"
      using y1000 yc by (rule strftime_ymd_iso)
    from a assms(1) have d: "date_minus_days (today now) (int r) = Inr c"
      by simp
    from a have recs: "\<forall>(k, smp)\<in>set aged.
             sample_date smp = iso_date (days_before (today now) k) \<and>
             1 \<le> year (days_before (today now) k) \<and>
             loads (sample_line dumps smp) = Some (json_of_sample smp)"
      by fastforce
    from a have "\<forall>l\<in>set (map (\<lambda>(k, smp). sample_line dumps smp) aged). proper_line l"
      by (fastforce simp add: proper_sample_line)
    then have ln: "?lines = map (\<lambda>(k, smp). sample_line dumps smp) aged"
      unfolding tx by (rule lines_of_text)
    have f: "filter (keep_line loads ?cutoff) (map (\<lambda>(k, smp). sample_line dumps smp) aged) =
           map (\<lambda>(k, smp). sample_line dumps smp) (filter (\<lambda>(k, smp). k \<le> r) aged)"
      unfolding sc using v y d recs by (rule prune_aged_samples)
    show "?new = Some (encode (concat (map (\<lambda>(k, smp). sample_line dumps smp)
                      (filter (\<lambda>(k, smp). k \<le> r) aged))))"
      unfolding p2 ln f by (rule refl)
  qed
  have p9: "valid_date (today now) \<and> year (today now) \<le> 9999 \<and> retention_days = 30 \<and>
          1000 \<le> year (days_before (today now) 40) \<and>
          (\<forall>k\<le>40. sample_date (rec k) = iso_date (days_before (today now) k) \<and>
             loads (sample_line dumps (rec k)) = Some (json_of_sample (rec k)) \<and>
             LF \<notin> set (dumps (json_of_sample (rec k))) \<and>
             CR \<notin> set (dumps (json_of_sample (rec k)))) \<and>
          decoded = concat (map (\<lambda>k. sample_line dumps (rec k)) (rev [0..<41])) \<longrightarrow>
            ?new = Some (encode (concat (map (\<lambda>k. sample_line dumps (rec k)) (rev [0..<31]))))"
  proof
    assume a: "valid_date (today now) \<and> year (today now) \<le> 9999 \<and> retention_days = 30 \<and>
          1000 \<le> year (days_before (today now) 40) \<and>
          (\<forall>k\<le>40. sample_date (rec k) = iso_date (days_before (today now) k) \<and>
             loads (sample_line dumps (rec k)) = Some (json_of_sample (rec k)) \<and>
             LF \<notin> set (dumps (json_of_sample (rec k))) \<and>
             CR \<notin> set (dumps (json_of_sample (rec k)))) \<and>
          decoded = concat (map (\<lambda>k. sample_line dumps (rec k)) (rev [0..<41]))"
    then have v: "valid_date (today now)" and y: "year (today now) \<le> 9999"
      and y40: "1000 \<le> year (days_before (today now) 40)"
      and tx: "decoded = concat (map (\<lambda>k. sample_line dumps (rec k)) (rev [0..<41]))"
      by blast+
    from a assms(1) have d: "date_minus_days (today now) 30 = Inr c"
      by simp
    have c30: "c = days_before (today now) 30"
      using d date_minus_days_nat [of "today now" 30 c] by simp
    have "year (days_before (today now) 40) \<le> year (days_before (today now) 30)"
      by (rule year_days_before_mono) simp
    with y40 have y1000: "1000 \<le> year c"
      unfolding c30 by simp
    have sc: "?cutoff = iso_date c"
      using y1000 yc by (rule strftime_ymd_iso)
    from y40 have y40': "1 \<le> year (days_before (today now) 40)"
      by simp
    from a have recs: "\<forall>k\<le>40. sample_date (rec k) = iso_date (days_before (today now) k) \<and>
             loads (sample_line dumps (rec k)) = Some (json_of_sample (rec k))"
      by blast
    from a have pr: "\<forall>k\<le>40. proper_line (sample_line dumps (rec k))"
      by (simp add: proper_sample_line)
    have "\<forall>l\<in>set (map (\<lambda>k. sample_line dumps (rec k)) (rev [0..<41])). proper_line l"
      using pr by auto
    then have ln: "?lines = map (\<lambda>k. sample_line dumps (rec k)) (rev [0..<41])"
      unfolding tx by (rule lines_of_text)
    have f: "filter (keep_line loads ?cutoff)
           (map (\<lambda>k. sample_line dumps (rec k)) (rev [0..<41])) =
         map (\<lambda>k. sample_line dumps (rec k)) (rev [0..<31])"
      unfolding sc using v y d y40' recs by (rule prune_forty_days)
    show "?new = Some (encode (concat (map (\<lambda>k. sample_line dumps (rec k)) (rev [0..<31]))))"
      unfolding p2 ln f by (rule refl)
  qed
  have p10: "fs' SamplesFile = Some bytes' \<and> decode bytes' = None \<longrightarrow>
            prune_samples decode encode loads retention_days now flushed fs' =
              (None, fs'(SamplesTmp \<mapsto> flushed)) \<and>
            snd (prune_samples decode encode loads retention_days now flushed fs') SamplesFile =
              Some bytes'"
  proof
    assume a: "fs' SamplesFile = Some bytes' \<and> decode bytes' = None"
    then have f: "fs' SamplesFile = Some bytes'" and u: "decode bytes' = None"
      by blast+
    have "prune_samples decode encode loads retention_days now flushed fs' =
              (None, fs'(SamplesTmp \<mapsto> flushed))"
      by (rule prune_samples_undecodable [where decode = decode and fs = fs', OF assms(1) f u])
    with a show "prune_samples decode encode loads retention_days now flushed fs' =
              (None, fs'(SamplesTmp \<mapsto> flushed)) \<and>
            snd (prune_samples decode encode loads retention_days now flushed fs') SamplesFile =
              Some bytes'"
      by simp
  qed
  from p1 p2 p3 p3' p4 p5 p6 p7 p7' p8 p9 p10 show ?thesis by blast
qed

section \<open>Pruning on concrete files\<close>

lemma days_before_within_month:
  "k < day d \<Longrightarrow> days_before d k = d\<lparr>day := day d - k\<rparr>"
proof (induction k)
  case 0
  show ?case by (simp add: days_before_def)
next
  case (Suc k)
  then have "days_before d k = d\<lparr>day := day d - k\<rparr>" and "1 < day d - k" by simp_all
  then show ?case by (simp add: days_before_Suc prev_day_def)
qed

lemma days_before_add: "days_before d (j + k) = days_before (days_before d j) k"
  by (simp add: days_before_def funpow_add add.commute [of j k])

lemma length_iso_date [simp]: "length (iso_date d) = 10"
  by (simp add: iso_date_def)

lemma sample_date_dated_sample:
  "length d = 10 \<Longrightarrow> sample_date (dated_sample d) = d"
  by (simp add: sample_date_def dated_sample_def)

lemma date_loads_dated_sample:
  assumes "length d = 10"
  shows "date_loads (sample_line date_dumps (dated_sample d)) = Some (json_of_sample (dated_sample d))"
proof -
  have "date_dumps (json_of_sample (dated_sample d)) = d"
    using assms by (simp add: date_dumps_def record_date_sample sample_date_dated_sample)
  with assms show ?thesis
    by (simp add: sample_line_def date_loads_def)
qed

lemma valid_march_15: "valid_date (today march_15)" "year (today march_15) \<le> 9999"
  by (simp_all add: march_15_def valid_date_def days_in_month_def)

lemma leap_day_2024: "days_before \<lparr>year = 2024, month = 3, day = 1\<rparr> 1 = \<lparr>year = 2024, month = 2, day = 29\<rparr>"
  by (simp add: days_before_def prev_day_def days_in_month_def is_leap_def)

lemma thirty_days_before_march_15:
  "days_before (today march_15) 30 = \<lparr>year = 2024, month = 2, day = 14\<rparr>"
proof -
  have "days_before (today march_15) (14 + (1 + 15)) =
      days_before (days_before (days_before (today march_15) 14) 1) 15"
    by (simp only: days_before_add)
  also have "days_before (today march_15) 14 = \<lparr>year = 2024, month = 3, day = 1\<rparr>"
    by (simp add: days_before_within_month march_15_def)
  also have "days_before (days_before \<lparr>year = 2024, month = 3, day = 1\<rparr> 1) 15 =
      \<lparr>year = 2024, month = 2, day = 14\<rparr>"
    by (simp only: leap_day_2024) (simp add: days_before_within_month)
  finally show ?thesis by simp
qed

lemma forty_days_before_march_15:
  "days_before (today march_15) 40 = \<lparr>year = 2024, month = 2, day = 4\<rparr>"
proof -
  have "days_before (today march_15) (14 + (1 + 25)) =
      days_before (days_before (days_before (today march_15) 14) 1) 25"
    by (simp only: days_before_add)
  also have "days_before (today march_15) 14 = \<lparr>year = 2024, month = 3, day = 1\<rparr>"
    by (simp add: days_before_within_month march_15_def)
  also have "days_before (days_before \<lparr>year = 2024, month = 3, day = 1\<rparr> 1) 25 =
      \<lparr>year = 2024, month = 2, day = 4\<rparr>"
    by (simp only: leap_day_2024) (simp add: days_before_within_month)
  finally show ?thesis by simp
qed

lemma cutoff_of_march_15:
  "date_minus_days (today march_15) 30 = Inr \<lparr>year = 2024, month = 2, day = 14\<rparr>"
  using date_minus_days_nat [of "today march_15" 30 "\<lparr>year = 2024, month = 2, day = 14\<rparr>"]
  by (simp add: thirty_days_before_march_15)

lemma date_dumps_dated_sample:
  "length d = 10 \<Longrightarrow> date_dumps (json_of_sample (dated_sample d)) = d"
  by (simp add: date_dumps_def record_date_sample sample_date_dated_sample)

lemma dated_line:
  "length d = 10 \<Longrightarrow> sample_line date_dumps (dated_sample d) = d @ [CHR 0x0A]"
  by (simp add: sample_line_def date_dumps_dated_sample LF_def)

lemma keep_dated_line:
  assumes "length d = 10"
  shows "keep_line date_loads cutoff (d @ [CHR 0x0A]) = py_str_le cutoff d"
  using assms date_loads_dated_sample [OF assms]
  by (simp add: keep_line_def dated_line record_date_sample sample_date_dated_sample)

lemma keep_examples:
  "\<not> keep_line date_loads ''2024-02-14'' (''2024-02-13'' @ [CHR 0x0A])"
  "keep_line date_loads ''2024-02-14'' (''2024-02-14'' @ [CHR 0x0A])"
  "keep_line date_loads ''2024-02-14'' (''2024-03-15'' @ [CHR 0x0A])"
  "\<not> keep_line date_loads ''2024-02-14'' (''not json'' @ [CHR 0x0A])"
proof -
  show "\<not> keep_line date_loads ''2024-02-14'' (''2024-02-13'' @ [CHR 0x0A])"
    using keep_dated_line [of "''2024-02-13''" "''2024-02-14''"] by simp
  show "keep_line date_loads ''2024-02-14'' (''2024-02-14'' @ [CHR 0x0A])"
    using keep_dated_line [of "''2024-02-14''" "''2024-02-14''"] by simp
  show "keep_line date_loads ''2024-02-14'' (''2024-03-15'' @ [CHR 0x0A])"
    using keep_dated_line [of "''2024-03-15''" "''2024-02-14''"] by simp
  show "\<not> keep_line date_loads ''2024-02-14'' (''not json'' @ [CHR 0x0A])"
    by (simp add: keep_line_def date_loads_def)
qed

lemma digit_char_in: "digit_char n \<in> set ''0123456789''"
  unfolding digit_char_def by (rule nth_mem) simp

lemma decimal_chars: "set (decimal w n) \<subseteq> set ''0123456789''"
proof (induction w arbitrary: n)
  case 0
  show ?case by simp
next
  case (Suc w)
  from Suc [of "n div 10"] digit_char_in [of n] show ?case by simp
qed

lemma iso_date_chars: "set (iso_date d) \<subseteq> set ''0123456789-''"
proof -
  have sub: "set ''0123456789'' \<subseteq> set ''0123456789-''"
    by (simp add: subset_insertI2)
  have d: "set (decimal w n) \<subseteq> set ''0123456789-''" for w n
    using decimal_chars [of w n] sub by (rule subset_trans)
  have m: "set ''-'' \<subseteq> set ''0123456789-''"
    by simp
  show ?thesis
    unfolding iso_date_def set_append by (intro Un_least d m)
qed

lemma iso_date_plain:
  assumes "c \<in> set (iso_date d)"
  shows "\<not> digit7 c" and "c \<noteq> LF" and "c \<noteq> CR"
proof -
  from assms iso_date_chars have "c \<in> set ''0123456789-''" by blast
  then show "\<not> digit7 c" and "c \<noteq> LF" and "c \<noteq> CR"
    by (auto simp add: LF_def CR_def)
qed

lemma ascii_decode_plain:
  "\<forall>c\<in>set t. \<not> digit7 c \<Longrightarrow> ascii_decode t = Some t"
  by (simp add: ascii_decode_def list_ex_iff)

lemma ascii_encode_append:
  "\<forall>t u. ascii_encode (t @ u) = ascii_encode t @ ascii_encode u"
  by (simp add: ascii_encode_def)



lemma iso_date_no_line_end: "LF \<notin> set (iso_date d)" "CR \<notin> set (iso_date d)"
  using iso_date_plain(2) [of LF d] iso_date_plain(3) [of CR d] by blast+

theorem prune_keeps_records_from_cutoff_witness:
  "date_minus_days (today march_15) 30 = Inr \<lparr>year = 2024, month = 2, day = 14\<rparr> \<and>
   ascii_decode (''2024-02-13'' @ [CHR 0x0A] @ ''not json'' @ [CHR 0x0A] @
                 ''2024-02-14'' @ [CHR 0x0A] @ ''2024-03-15'' @ [CHR 0x0A]) =
     Some (''2024-02-13'' @ [CHR 0x0A] @ ''not json'' @ [CHR 0x0A] @
           ''2024-02-14'' @ [CHR 0x0A] @ ''2024-03-15'' @ [CHR 0x0A]) \<and>
   snd (prune_samples ascii_decode ascii_encode date_loads 30 march_15 []
     (no_files(SamplesFile \<mapsto>
        ''2024-02-13'' @ [CHR 0x0A] @ ''not json'' @ [CHR 0x0A] @
        ''2024-02-14'' @ [CHR 0x0A] @ ''2024-03-15'' @ [CHR 0x0A]))) SamplesFile =
     Some (''2024-02-14'' @ [CHR 0x0A] @ ''2024-03-15'' @ [CHR 0x0A]) \<and>
   snd (prune_samples ascii_decode ascii_encode date_loads 30 march_15 []
     (no_files(SamplesFile \<mapsto>
        concat (map (\<lambda>k. sample_line date_dumps
                      (dated_sample (iso_date (days_before (today march_15) k))))
                  (rev [0..<41]))))) SamplesFile =
     Some (concat (map (\<lambda>k. sample_line date_dumps
                      (dated_sample (iso_date (days_before (today march_15) k))))
                  (rev [0..<31]))) \<and>
   snd (prune_samples ascii_decode ascii_encode date_loads 30 march_15 []
     (no_files(SamplesFile \<mapsto>
        concat (map (\<lambda>k. sample_line date_dumps
                      (dated_sample (iso_date (days_before (today march_15) k))))
                  (rev [0..<41]))))) SamplesFile =
     Some (concat (map (\<lambda>(k, smp). sample_line date_dumps smp)
             (filter (\<lambda>(k, smp). k \<le> 30)
                (map (\<lambda>k. (k, dated_sample (iso_date (days_before (today march_15) k))))
                   (rev [0..<41]))))) \<and>
   ascii_decode [CHR 0xFF, CHR 0x0A] = None \<and>
   prune_samples ascii_decode ascii_encode date_loads 30 march_15 []
     (no_files(SamplesFile \<mapsto> [CHR 0xFF, CHR 0x0A])) =
     (None, no_files(SamplesFile \<mapsto> [CHR 0xFF, CHR 0x0A], SamplesTmp \<mapsto> []))"
proof -
  let ?c = "\<lparr>year = 2024, month = 2, day = 14\<rparr>"
  let ?ls = "[''2024-02-13'' @ [CHR 0x0A], ''not json'' @ [CHR 0x0A],
      ''2024-02-14'' @ [CHR 0x0A], ''2024-03-15'' @ [CHR 0x0A]]"
  let ?small = "''2024-02-13'' @ [CHR 0x0A] @ ''not json'' @ [CHR 0x0A] @
      ''2024-02-14'' @ [CHR 0x0A] @ ''2024-03-15'' @ [CHR 0x0A]"
  let ?rec = "\<lambda>k. dated_sample (iso_date (days_before (today march_15) k))"
  let ?aged = "map (\<lambda>k. (k, ?rec k)) (rev [0..<41])"
  let ?big = "concat (map (\<lambda>k. sample_line date_dumps (?rec k)) (rev [0..<41]))"
  let ?bad = "[CHR 0xFF, CHR 0x0A]"
  have f1: "(no_files(SamplesFile \<mapsto> ?small)) SamplesFile = Some ?small" by simp
  have f2: "(no_files(SamplesFile \<mapsto> ?big)) SamplesFile = Some ?big" by simp
  have f3: "(no_files(SamplesFile \<mapsto> ?bad)) SamplesFile = Some ?bad" by simp
  have d1: "ascii_decode ?small = Some ?small"
    by (simp add: ascii_decode_def)
  have d2: "ascii_decode ?big = Some ?big"
  proof (rule ascii_decode_plain, rule ballI)
    fix ch
    assume "ch \<in> set ?big"
    then obtain k where
      "ch \<in> set (sample_line date_dumps (dated_sample (iso_date (days_before (today march_15) k))))"
      by auto
    then have "ch \<in> set (iso_date (days_before (today march_15) k)) \<or> ch = CHR 0x0A"
      by (auto simp add: dated_line)
    then show "\<not> digit7 ch"
      using iso_date_plain(1) [of ch "days_before (today march_15) k"] by auto
  qed
  have d3: "ascii_decode ?bad = None"
    by (simp add: ascii_decode_def)
  note T1 = prune_keeps_records_from_cutoff [where loads = date_loads and now = march_15
      and retention_days = 30 and c = ?c and fs = "no_files(SamplesFile \<mapsto> ?small)"
      and bytes = ?small and decoded = ?small and decode = ascii_decode and encode = ascii_encode
      and flushed = "[]" and ls = ?ls and fs' = "no_files(SamplesFile \<mapsto> ?bad)"
      and bytes' = ?bad,
      OF cutoff_of_march_15 f1 d1]
  note T2 = prune_keeps_records_from_cutoff [where loads = date_loads and now = march_15
      and retention_days = 30 and c = ?c and fs = "no_files(SamplesFile \<mapsto> ?big)"
      and bytes = ?big and decoded = ?big and decode = ascii_decode and encode = ascii_encode
      and flushed = "[]" and dumps = date_dumps and rec = ?rec and aged = ?aged and r = 30,
      OF cutoff_of_march_15 f2 d2]
  have h7: "(\<forall>l\<in>set ?ls. proper_line l) \<and> ?small = concat ?ls \<and> ascii_encode ?small = ?small \<and>
      (\<forall>t u. ascii_encode (t @ u) = ascii_encode t @ ascii_encode u)"
    by (simp add: proper_line_def LF_def CR_def ascii_encode_def)
  have "snd (prune_samples ascii_decode ascii_encode date_loads 30 march_15 []
      (no_files(SamplesFile \<mapsto> ?small))) SamplesFile =
      Some (concat (map ascii_encode (filter (keep_line date_loads (strftime_ymd ?c)) ?ls)))"
    by (rule T1 [THEN conjunct2, THEN conjunct2, THEN conjunct2, THEN conjunct2, THEN conjunct2,
          THEN conjunct2, THEN conjunct2, THEN conjunct2, THEN conjunct1, THEN mp, OF h7,
          THEN conjunct2])
  then have a: "snd (prune_samples ascii_decode ascii_encode date_loads 30 march_15 []
      (no_files(SamplesFile \<mapsto> ?small))) SamplesFile =
      Some (''2024-02-14'' @ [CHR 0x0A] @ ''2024-03-15'' @ [CHR 0x0A])"
    by (simp only: strftime_examples filter.simps keep_examples if_True if_False)
      (simp add: ascii_encode_def)
  have yk: "1 \<le> year (days_before (today march_15) k)" if "k \<le> 40" for k
    using year_days_before_mono [OF that, of "today march_15"]
    by (simp add: forty_days_before_march_15)
  have plain: "LF \<notin> set (date_dumps (json_of_sample (?rec k))) \<and>
      CR \<notin> set (date_dumps (json_of_sample (?rec k)))" for k
    by (simp add: date_dumps_dated_sample iso_date_no_line_end)
  have h9: "valid_date (today march_15) \<and> year (today march_15) \<le> 9999 \<and> (30::int) = 30 \<and>
      1000 \<le> year (days_before (today march_15) 40) \<and>
      (\<forall>k\<le>40. sample_date (?rec k) = iso_date (days_before (today march_15) k) \<and>
         date_loads (sample_line date_dumps (?rec k)) = Some (json_of_sample (?rec k)) \<and>
         LF \<notin> set (date_dumps (json_of_sample (?rec k))) \<and>
         CR \<notin> set (date_dumps (json_of_sample (?rec k)))) \<and>
      ?big = concat (map (\<lambda>k. sample_line date_dumps (?rec k)) (rev [0..<41]))"
    using plain
    by (simp add: valid_march_15 forty_days_before_march_15 sample_date_dated_sample
        date_loads_dated_sample)
  have "snd (prune_samples ascii_decode ascii_encode date_loads 30 march_15 []
      (no_files(SamplesFile \<mapsto> ?big))) SamplesFile =
      Some (ascii_encode (concat (map (\<lambda>k. sample_line date_dumps (?rec k)) (rev [0..<31]))))"
    by (rule T2 [THEN conjunct2, THEN conjunct2, THEN conjunct2, THEN conjunct2, THEN conjunct2,
          THEN conjunct2, THEN conjunct2, THEN conjunct2, THEN conjunct2, THEN conjunct2,
          THEN conjunct1, THEN mp, OF h9])
  then have b: "snd (prune_samples ascii_decode ascii_encode date_loads 30 march_15 []
      (no_files(SamplesFile \<mapsto> ?big))) SamplesFile =
      Some (concat (map (\<lambda>k. sample_line date_dumps (?rec k)) (rev [0..<31])))"
    by (simp only: ascii_encode_def)
  have h8: "valid_date (today march_15) \<and> year (today march_15) \<le> 9999 \<and> (30::int) = int 30 \<and>
      1000 \<le> year ?c \<and>
      (\<forall>(k, smp)\<in>set ?aged.
         sample_date smp = iso_date (days_before (today march_15) k) \<and>
         1 \<le> year (days_before (today march_15) k) \<and>
         date_loads (sample_line date_dumps smp) = Some (json_of_sample smp) \<and>
         LF \<notin> set (date_dumps (json_of_sample smp)) \<and>
         CR \<notin> set (date_dumps (json_of_sample smp))) \<and>
      ?big = concat (map (\<lambda>(k, smp). sample_line date_dumps smp) ?aged)"
  proof -
    have "\<forall>(k, smp)\<in>set ?aged.
         sample_date smp = iso_date (days_before (today march_15) k) \<and>
         1 \<le> year (days_before (today march_15) k) \<and>
         date_loads (sample_line date_dumps smp) = Some (json_of_sample smp) \<and>
         LF \<notin> set (date_dumps (json_of_sample smp)) \<and>
         CR \<notin> set (date_dumps (json_of_sample smp))"
      using plain yk
      by (auto simp add: sample_date_dated_sample date_loads_dated_sample)
    moreover have "?big = concat (map (\<lambda>(k, smp). sample_line date_dumps smp) ?aged)"
      by (simp add: comp_def)
    ultimately show ?thesis
      by (simp add: valid_march_15)
  qed
  have "snd (prune_samples ascii_decode ascii_encode date_loads 30 march_15 []
      (no_files(SamplesFile \<mapsto> ?big))) SamplesFile =
      Some (ascii_encode (concat (map (\<lambda>(k, smp). sample_line date_dumps smp)
             (filter (\<lambda>(k, smp). k \<le> 30) ?aged))))"
    by (rule T2 [THEN conjunct2, THEN conjunct2, THEN conjunct2, THEN conjunct2, THEN conjunct2,
          THEN conjunct2, THEN conjunct2, THEN conjunct2, THEN conjunct2, THEN conjunct1,
          THEN mp, OF h8])
  then have b': "snd (prune_samples ascii_decode ascii_encode date_loads 30 march_15 []
      (no_files(SamplesFile \<mapsto> ?big))) SamplesFile =
      Some (concat (map (\<lambda>(k, smp). sample_line date_dumps smp)
             (filter (\<lambda>(k, smp). k \<le> 30) ?aged)))"
    by (simp only: ascii_encode_def)
  have h10: "(no_files(SamplesFile \<mapsto> ?bad)) SamplesFile = Some ?bad \<and> ascii_decode ?bad = None"
    using f3 d3 by (rule conjI)
  have e: "prune_samples ascii_decode ascii_encode date_loads 30 march_15 []
      (no_files(SamplesFile \<mapsto> ?bad)) =
      (None, no_files(SamplesFile \<mapsto> ?bad, SamplesTmp \<mapsto> []))"
    by (rule T1 [THEN conjunct2, THEN conjunct2, THEN conjunct2, THEN conjunct2, THEN conjunct2,
          THEN conjunct2, THEN conjunct2, THEN conjunct2, THEN conjunct2, THEN conjunct2,
          THEN conjunct2, THEN mp, OF h10, THEN conjunct1])
  from cutoff_of_march_15 d1 a b b' d3 e show ?thesis by blast
qed

lemma thirty_days_before_march_15_of_999:
  "date_minus_days (today march_15_of_999) 30 = Inr \<lparr>year = 999, month = 2, day = 13\<rparr>"
proof -
  have "days_before (today march_15_of_999) (14 + (1 + 15)) =
      days_before (days_before (days_before (today march_15_of_999) 14) 1) 15"
    by (simp only: days_before_add)
  also have "days_before (today march_15_of_999) 14 = \<lparr>year = 999, month = 3, day = 1\<rparr>"
    by (simp add: days_before_within_month march_15_of_999_def)
  also have "days_before \<lparr>year = 999, month = 3, day = 1\<rparr> 1 = \<lparr>year = 999, month = 2, day = 28\<rparr>"
    by (simp add: days_before_def prev_day_def days_in_month_def is_leap_def)
  also have "days_before \<lparr>year = 999, month = 2, day = 28\<rparr> 15 = \<lparr>year = 999, month = 2, day = 13\<rparr>"
    by (simp add: days_before_within_month)
  finally have "days_before (today march_15_of_999) 30 = \<lparr>year = 999, month = 2, day = 13\<rparr>"
    by simp
  then show ?thesis
    using date_minus_days_nat [of "today march_15_of_999" 30 "\<lparr>year = 999, month = 2, day = 13\<rparr>"]
    by simp
qed

lemma strftime_of_999:
  "strftime_ymd \<lparr>year = 999, month = 2, day = 13\<rparr> = ''999-02-13''"
  by (simp add: strftime_ymd_def digits.simps [of 999] digits.simps [of 99] digits.simps [of 9]
      decimal_2 digit_char_def)

text \<open>
  Claim C3 as stated fails in three ways. A surviving record whose line ends in a
  carriage return and a line feed is written back with a line feed alone, so its bytes
  change. A samples file with a byte that does not decode (\<open>0xFF\<close>, invalid in UTF-8 as
  in ASCII) makes the loop raise before the file is replaced: a record of 13 February
  2024, which is older than the cutoff of 14 February, stays in the file. And on
  15 March 999 the cutoff is written \<^verbatim>\<open>999-02-13\<close>, which as a string is above
  every date that starts with a zero: the record of the day before, \<^verbatim>\<open>0999-03-14\<close>, is
  removed.
\<close>

theorem prune_rewrites_line_ends_and_keeps_undecodable_file:
  "date_minus_days (today march_15) 30 = Inr \<lparr>year = 2024, month = 2, day = 14\<rparr> \<and>
   snd (prune_samples ascii_decode ascii_encode date_loads 30 march_15 []
     (no_files(SamplesFile \<mapsto> ''2024-03-15'' @ [CHR 0x0D, CHR 0x0A]))) SamplesFile =
     Some (''2024-03-15'' @ [CHR 0x0A]) \<and>
   \<not> keep_line date_loads ''2024-02-14'' (''2024-02-13'' @ [CHR 0x0A]) \<and>
   snd (prune_samples ascii_decode ascii_encode date_loads 30 march_15 []
     (no_files(SamplesFile \<mapsto> ''2024-02-13'' @ [CHR 0x0A, CHR 0xFF, CHR 0x0A]))) SamplesFile =
     Some (''2024-02-13'' @ [CHR 0x0A, CHR 0xFF, CHR 0x0A]) \<and>
   date_minus_days (today march_15_of_999) 30 = Inr \<lparr>year = 999, month = 2, day = 13\<rparr> \<and>
   strftime_ymd \<lparr>year = 999, month = 2, day = 13\<rparr> = ''999-02-13'' \<and>
   snd (prune_samples ascii_decode ascii_encode date_loads 30 march_15_of_999 []
     (no_files(SamplesFile \<mapsto> ''0999-03-14'' @ [CHR 0x0A]))) SamplesFile = Some []"
proof -
  let ?crlf = "''2024-03-15'' @ [CHR 0x0D, CHR 0x0A]"
  let ?bad = "''2024-02-13'' @ [CHR 0x0A, CHR 0xFF, CHR 0x0A]"
  let ?old = "''0999-03-14'' @ [CHR 0x0A]"
  have f1: "(no_files(SamplesFile \<mapsto> ?crlf)) SamplesFile = Some ?crlf" by simp
  have d1: "ascii_decode ?crlf = Some ?crlf"
    by (simp add: ascii_decode_def)
  have l1: "split_lines [] (universal_newlines ?crlf) = [''2024-03-15'' @ [CHR 0x0A]]"
    by (simp add: LF_def CR_def)
  have a: "snd (prune_samples ascii_decode ascii_encode date_loads 30 march_15 []
     (no_files(SamplesFile \<mapsto> ?crlf))) SamplesFile = Some (''2024-03-15'' @ [CHR 0x0A])"
    unfolding prune_samples_result [where decode = ascii_decode
        and fs = "no_files(SamplesFile \<mapsto> ?crlf)", OF cutoff_of_march_15 f1 d1] l1
    by (simp only: strftime_examples filter.simps keep_examples if_True if_False)
      (simp add: ascii_encode_def)
  have f2: "(no_files(SamplesFile \<mapsto> ?bad)) SamplesFile = Some ?bad" by simp
  have d2: "ascii_decode ?bad = None"
    by (simp add: ascii_decode_def)
  have b: "snd (prune_samples ascii_decode ascii_encode date_loads 30 march_15 []
     (no_files(SamplesFile \<mapsto> ?bad))) SamplesFile = Some ?bad"
    unfolding prune_samples_undecodable [where decode = ascii_decode
        and fs = "no_files(SamplesFile \<mapsto> ?bad)", OF cutoff_of_march_15 f2 d2]
    by simp
  have f3: "(no_files(SamplesFile \<mapsto> ?old)) SamplesFile = Some ?old" by simp
  have d3: "ascii_decode ?old = Some ?old"
    by (simp add: ascii_decode_def)
  have l3: "split_lines [] (universal_newlines ?old) = [?old]"
    by (simp add: LF_def CR_def)
  have k3: "\<not> keep_line date_loads ''999-02-13'' ?old"
    using keep_dated_line [of "''0999-03-14''" "''999-02-13''"] by simp
  have c: "snd (prune_samples ascii_decode ascii_encode date_loads 30 march_15_of_999 []
     (no_files(SamplesFile \<mapsto> ?old))) SamplesFile = Some []"
    unfolding prune_samples_result [where decode = ascii_decode
        and fs = "no_files(SamplesFile \<mapsto> ?old)",
        OF thirty_days_before_march_15_of_999 f3 d3] l3
    by (simp only: strftime_of_999 filter.simps k3 if_True if_False)
      (simp add: ascii_encode_def)
  from cutoff_of_march_15 a keep_examples(1) b thirty_days_before_march_15_of_999
    strftime_of_999 c
  show ?thesis by blast
qed

end
